theory Spec2Isabelle
  imports Complex_Main "HOL-Library.Word"
begin


unbundle bit_operations_syntax

section \<open>JavaScript numbers\<close>

text \<open>
  A JavaScript number is modelled as a real number or one of the three non-finite
  values of IEEE 754. Finite arithmetic is exact (no rounding, no overflow), and the
  two zeros are identified: a zero divisor counts as \<open>+0\<close>. The value \<open>undefined\<close>,
  which the programs below only ever feed into arithmetic, is identified with \<open>NaN\<close>.
\<close>

datatype jsnum = Num real | PInf | NInf | NaN

datatype js_error = RangeError

fun is_fin :: "jsnum \<Rightarrow> bool" where
  "is_fin (Num r) = True"
| "is_fin _ = False"

fun fin :: "jsnum \<Rightarrow> real" where
  "fin (Num r) = r"
| "fin _ = 0"

fun jsign :: "jsnum \<Rightarrow> real" where
  "jsign (Num r) = sgn r"
| "jsign PInf = 1"
| "jsign NInf = - 1"
| "jsign NaN = 0"

fun jneg :: "jsnum \<Rightarrow> jsnum" where
  "jneg (Num r) = Num (- r)"
| "jneg PInf = NInf"
| "jneg NInf = PInf"
| "jneg NaN = NaN"

fun jadd :: "jsnum \<Rightarrow> jsnum \<Rightarrow> jsnum" where
  "jadd (Num a) (Num b) = Num (a + b)"
| "jadd NaN _ = NaN"
| "jadd _ NaN = NaN"
| "jadd PInf NInf = NaN"
| "jadd NInf PInf = NaN"
| "jadd PInf _ = PInf"
| "jadd _ PInf = PInf"
| "jadd NInf _ = NInf"
| "jadd _ NInf = NInf"

definition jsub :: "jsnum \<Rightarrow> jsnum \<Rightarrow> jsnum" where
  "jsub a b = jadd a (jneg b)"

definition jmul :: "jsnum \<Rightarrow> jsnum \<Rightarrow> jsnum" where
  "jmul x y =
     (if x = NaN \<or> y = NaN then NaN
      else if is_fin x \<and> is_fin y then Num (fin x * fin y)
      else if jsign x * jsign y = 0 then NaN
      else if jsign x * jsign y > 0 then PInf else NInf)"

definition jdiv :: "jsnum \<Rightarrow> jsnum \<Rightarrow> jsnum" where
  "jdiv x y =
     (if x = NaN \<or> y = NaN then NaN
      else if is_fin x \<and> is_fin y then
        (if fin y \<noteq> 0 then Num (fin x / fin y)
         else if fin x = 0 then NaN
         else if fin x > 0 then PInf else NInf)
      else if is_fin x then Num 0
      else if \<not> is_fin y then NaN
      else if (jsign x > 0) = (fin y \<ge> 0) then PInf else NInf)"

text \<open>The relational operators \<open><=\<close> and \<open><\<close>: false as soon as one side is \<open>NaN\<close>.\<close>

fun jle :: "jsnum \<Rightarrow> jsnum \<Rightarrow> bool" where
  "jle NaN _ = False"
| "jle _ NaN = False"
| "jle (Num a) (Num b) = (a \<le> b)"
| "jle NInf _ = True"
| "jle _ PInf = True"
| "jle _ _ = False"

definition jlt :: "jsnum \<Rightarrow> jsnum \<Rightarrow> bool" where
  "jlt a b = (jle a b \<and> a \<noteq> b)"

definition Math_min :: "jsnum \<Rightarrow> jsnum \<Rightarrow> jsnum" where
  "Math_min a b = (if a = NaN \<or> b = NaN then NaN else if jle a b then a else b)"

definition Math_max :: "jsnum \<Rightarrow> jsnum \<Rightarrow> jsnum" where
  "Math_max a b = (if a = NaN \<or> b = NaN then NaN else if jle a b then b else a)"

fun Math_floor :: "jsnum \<Rightarrow> jsnum" where
  "Math_floor (Num r) = Num (of_int \<lfloor>r\<rfloor>)"
| "Math_floor x = x"

fun Math_sin :: "jsnum \<Rightarrow> jsnum" where
  "Math_sin (Num r) = Num (sin r)"
| "Math_sin _ = NaN"

fun Math_sqrt :: "jsnum \<Rightarrow> jsnum" where
  "Math_sqrt (Num r) = (if r < 0 then NaN else Num (sqrt r))"
| "Math_sqrt PInf = PInf"
| "Math_sqrt _ = NaN"

fun Math_exp :: "jsnum \<Rightarrow> jsnum" where
  "Math_exp (Num r) = Num (exp r)"
| "Math_exp PInf = PInf"
| "Math_exp NInf = Num 0"
| "Math_exp NaN = NaN"

text \<open>\<open>Math.pow(x, n)\<close> for a non-negative integer exponent \<open>n\<close>.\<close>

fun Math_pow :: "jsnum \<Rightarrow> nat \<Rightarrow> jsnum" where
  "Math_pow x 0 = Num 1"
| "Math_pow (Num r) n = Num (r ^ n)"
| "Math_pow PInf n = PInf"
| "Math_pow NInf n = (if even n then PInf else NInf)"
| "Math_pow NaN n = NaN"

text \<open>
  Modelled from the spec: the p5.js library functions \<open>constrain\<close> and \<open>lerp\<close> are not
  part of the sources; the specification has the queries clamp the position into the
  bar and interpolate linearly between the two nearest samples. The definitions are
  those of p5.js: \<open>constrain(n, low, high) = Math.max(Math.min(n, high), low)\<close> and
  \<open>lerp(start, stop, amt) = amt * (stop - start) + start\<close>.
\<close>

definition constrain :: "jsnum \<Rightarrow> jsnum \<Rightarrow> jsnum \<Rightarrow> jsnum" where
  "constrain n low high = Math_max (Math_min n high) low"

definition lerp :: "jsnum \<Rightarrow> jsnum \<Rightarrow> jsnum \<Rightarrow> jsnum" where
  "lerp start stop amt = jadd (jmul amt (jsub stop start)) start"

subsection \<open>Arrays of numbers\<close>

text \<open>
  Reading an array outside its bounds, or at an index that is no integer, gives
  \<open>undefined\<close>; writing past the end extends the array, leaving holes that read as
  \<open>undefined\<close>.
\<close>

definition aget :: "jsnum list \<Rightarrow> int \<Rightarrow> jsnum" where
  "aget xs i = (if 0 \<le> i \<and> i < int (length xs) then xs ! nat i else NaN)"

definition jget :: "jsnum list \<Rightarrow> jsnum \<Rightarrow> jsnum" where
  "jget xs i =
     (case i of
        Num r \<Rightarrow> (if r = of_int \<lfloor>r\<rfloor> then aget xs \<lfloor>r\<rfloor> else NaN)
      | _ \<Rightarrow> NaN)"

definition aset :: "jsnum list \<Rightarrow> nat \<Rightarrow> jsnum \<Rightarrow> jsnum list" where
  "aset xs i v =
     (if i < length xs then xs[i := v]
      else xs @ replicate (i - length xs) NaN @ [v])"

text \<open>\<open>new Array(n).fill(v)\<close>: the constructor throws for a length outside \<open>[0, 2^32)\<close>.\<close>

definition new_Array_fill :: "int \<Rightarrow> jsnum \<Rightarrow> js_error + jsnum list" where
  "new_Array_fill n v =
     (if n < 0 \<or> n \<ge> 2 ^ 32 then Inl RangeError else Inr (replicate (nat n) v))"

section \<open>The Mulberry32 generator\<close>

text \<open>
  The state is a JavaScript number that \<open>next\<close> increases by \<open>0x6D2B79F5\<close> without
  wrapping; it is an exact integer as long as it stays below \<open>2^53\<close>. The bitwise
  operators and \<open>Math.imul\<close> work on its low 32 bits.
\<close>

record Mulberry32 =
  state :: int

definition Mulberry32_new :: "int \<Rightarrow> Mulberry32" where
  "Mulberry32_new seed = \<lparr> state = seed mod 2 ^ 32 \<rparr>"

definition Mulberry32_next :: "Mulberry32 \<Rightarrow> real \<times> Mulberry32" where
  "Mulberry32_next g =
     (let s = state g + 0x6D2B79F5;
          t0 = (word_of_int s :: 32 word);
          t1 = (t0 XOR drop_bit 15 t0) * (t0 OR 1);
          t2 = t1 XOR (t1 + (t1 XOR drop_bit 7 t1) * (t1 OR 61))
      in (real (unat (t2 XOR drop_bit 14 t2)) / 4294967296, g\<lparr>state := s\<rparr>))"

section \<open>Area profiles\<close>

text \<open>
  The options object of the constructor: an absent field is \<open>None\<close>. Sample counts and
  seeds are integers. When no seed is given the constructor takes
  \<open>Math.floor(Math.random() * 1e9)\<close>, which is the argument \<open>entropy\<close> below.
\<close>

record AreaOpts =
  opt_length :: "jsnum option"
  opt_samples :: "int option"
  opt_minArea :: "jsnum option"
  opt_maxArea :: "jsnum option"
  opt_seed :: "int option"

record AreaProfile =
  length_m :: jsnum
  samples :: int
  minArea :: jsnum
  maxArea :: jsnum
  rng :: Mulberry32
  area :: "jsnum list"
  dx :: jsnum
  cumulative :: "jsnum list"
  totalR :: jsnum

text \<open>
  The inner loop of \<open>generate\<close>, which runs once for every sample: each pass draws a
  phase and a frequency and adds one sinusoid to \<open>val\<close>.
\<close>

function lobe_loop :: "int \<Rightarrow> int \<Rightarrow> jsnum \<Rightarrow> jsnum \<Rightarrow> Mulberry32 \<Rightarrow> jsnum \<times> Mulberry32" where
  "lobe_loop k lobes xNorm val g =
     (if k < lobes then
        (let (u1, g1) = Mulberry32_next g;
             phase = Num (u1 * pi * 2);
             (u2, g2) = Mulberry32_next g1;
             freq = Num (0.7 + u2 * 1.3);
             val' = jadd val (jmul (Num 0.6)
                      (Math_sin (jadd (jmul (jmul freq (Num pi)) xNorm) phase)))
         in lobe_loop (k + 1) lobes xNorm val' g2)
      else (val, g))"
  by pat_completeness auto
termination
  by (relation "measure (\<lambda>(k, lobes, xNorm, val, g). nat (lobes - k))") simp_all

declare lobe_loop.simps [simp del]

text \<open>The body of the outer loop of \<open>generate\<close>, for sample \<open>i\<close>.\<close>

definition sample_step :: "int \<Rightarrow> nat \<Rightarrow> AreaProfile \<Rightarrow> AreaProfile" where
  "sample_step lobes i p =
     (let xNorm = jdiv (Num (real i)) (Num (of_int (samples p - 1)));
          (val1, g1) = lobe_loop 0 lobes xNorm (Num 1.4) (rng p);
          (u, g2) = Mulberry32_next g1;
          val2 = jadd val1 (jmul (Num 0.3) (Num (u - 0.5)));
          val3 = Math_min (maxArea p) (Math_max (minArea p) val2)
      in p\<lparr>rng := g2, area := aset (area p) i val3\<rparr>)"

function sample_loop :: "int \<Rightarrow> nat \<Rightarrow> AreaProfile \<Rightarrow> AreaProfile" where
  "sample_loop lobes i p =
     (if int i < samples p then sample_loop lobes (Suc i) (sample_step lobes i p) else p)"
  by pat_completeness (simp only: prod.inject)

lemma samples_sample_step [simp]: "samples (sample_step lobes i p) = samples p"
  by (simp add: sample_step_def Let_def split: prod.splits)

termination sample_loop
  by (relation "measure (\<lambda>(lobes, i, p). nat (samples p - int i))") simp_all

declare sample_loop.simps [simp del]

definition generate :: "AreaProfile \<Rightarrow> AreaProfile" where
  "generate p =
     (let (u, g) = Mulberry32_next (rng p);
          lobes = 2 + \<lfloor>u * 3\<rfloor>
      in sample_loop lobes 0 (p\<lparr>rng := g\<rparr>))"

definition AreaProfile_new :: "int \<Rightarrow> AreaOpts \<Rightarrow> js_error + AreaProfile" where
  "AreaProfile_new entropy opts =
     (let len = (case opt_length opts of None \<Rightarrow> Num 1.0 | Some v \<Rightarrow> v);
          n = (case opt_samples opts of None \<Rightarrow> 512 | Some v \<Rightarrow> v);
          lo = (case opt_minArea opts of None \<Rightarrow> Num 0.6 | Some v \<Rightarrow> v);
          hi = (case opt_maxArea opts of None \<Rightarrow> Num 3.2 | Some v \<Rightarrow> v);
          g = Mulberry32_new (case opt_seed opts of None \<Rightarrow> entropy | Some v \<Rightarrow> v)
      in case new_Array_fill n (Num 1) of
           Inl e \<Rightarrow> Inl e
         | Inr a \<Rightarrow>
             (case new_Array_fill n (Num 0) of
                Inl e \<Rightarrow> Inl e
              | Inr c \<Rightarrow>
                  Inr (generate
                    \<lparr> length_m = len, samples = n, minArea = lo, maxArea = hi, rng = g,
                      area = a, dx = jdiv len (Num (of_int (n - 1))), cumulative = c,
                      totalR = Num 1 \<rparr>)))"

text \<open>The loop of \<open>precompute\<close>; \<open>scale\<close> converts square millimetres to square metres.\<close>

function precompute_loop :: "jsnum \<Rightarrow> nat \<Rightarrow> AreaProfile \<Rightarrow> AreaProfile" where
  "precompute_loop rho i p =
     (if int i < samples p then
        (let scale = Num (1 / 10 ^ 6);
             conductance = jdiv rho (jmul (aget (area p) (int i)) scale)
         in precompute_loop rho (Suc i)
              (p\<lparr>cumulative := aset (cumulative p) i
                    (jadd (aget (cumulative p) (int i - 1)) (jmul conductance (dx p)))\<rparr>))
      else p)"
  by pat_completeness (simp only: prod.inject)
termination
  by (relation "measure (\<lambda>(rho, i, p). nat (samples p - int i))") simp_all

declare precompute_loop.simps [simp del]

definition precompute :: "jsnum \<Rightarrow> AreaProfile \<Rightarrow> AreaProfile" where
  "precompute rho p =
     (let p1 = precompute_loop rho 1 (p\<lparr>cumulative := aset (cumulative p) 0 (Num 0)\<rparr>)
      in p1\<lparr>totalR := aget (cumulative p1) (samples p1 - 1)\<rparr>)"

definition areaAt :: "AreaProfile \<Rightarrow> jsnum \<Rightarrow> jsnum" where
  "areaAt p x =
     (let t = constrain (jdiv x (length_m p)) (Num 0) (Num 1);
          idx = jmul t (Num (of_int (samples p - 1)));
          i0 = Math_floor idx;
          i1 = Math_min (Num (of_int (samples p - 1))) (jadd i0 (Num 1));
          f = jsub idx i0
      in lerp (jget (area p) i0) (jget (area p) i1) f)"

definition resistanceUpTo :: "AreaProfile \<Rightarrow> jsnum \<Rightarrow> jsnum" where
  "resistanceUpTo p x =
     (let t = constrain (jdiv x (length_m p)) (Num 0) (Num 1);
          idx = jmul t (Num (of_int (samples p - 1)));
          i0 = Math_floor idx;
          i1 = Math_min (Num (of_int (samples p - 1))) (jadd i0 (Num 1));
          f = jsub idx i0
      in lerp (jget (cumulative p) i0) (jget (cumulative p) i1) f)"

section \<open>The measurement log\<close>

record MeasurementSample =
  sample_x :: jsnum
  sample_v :: jsnum

record MeasurementLog =
  data :: "MeasurementSample list"

definition MeasurementLog_new :: MeasurementLog where
  "MeasurementLog_new = \<lparr> data = [] \<rparr>"

definition clear :: "MeasurementLog \<Rightarrow> MeasurementLog" where
  "clear lg = lg\<lparr>data := []\<rparr>"

definition add :: "jsnum \<Rightarrow> jsnum \<Rightarrow> MeasurementLog \<Rightarrow> MeasurementLog" where
  "add x v lg = lg\<lparr>data := data lg @ [\<lparr> sample_x = x, sample_v = v \<rparr>]\<rparr>"

text \<open>
  The callback \<open>fn\<close> of \<open>autoScan\<close> may have effects of its own (the experiment's
  callback consumes a random draw): it is a function on a state \<open>'s\<close> that the loop
  threads through its calls. The callback does not touch the log. An absent \<open>count\<close>
  is \<open>None\<close> and defaults to 24.
\<close>

function autoScan_loop ::
    "(jsnum \<Rightarrow> 's \<Rightarrow> jsnum \<times> 's) \<Rightarrow> jsnum \<Rightarrow> int \<Rightarrow> nat \<Rightarrow> MeasurementLog \<Rightarrow> 's
       \<Rightarrow> MeasurementLog \<times> 's" where
  "autoScan_loop fn step count i lg s =
     (if int i < count then
        (let x = jmul (Num (real i)) step;
             (v, s') = fn x s
         in autoScan_loop fn step count (Suc i) (add x v lg) s')
      else (lg, s))"
  by pat_completeness auto
termination
  by (relation "measure (\<lambda>(fn, step, count, i, lg, s). nat (count - int i))") simp_all

declare autoScan_loop.simps [simp del]

definition autoScan ::
    "jsnum \<Rightarrow> (jsnum \<Rightarrow> 's \<Rightarrow> jsnum \<times> 's) \<Rightarrow> int option \<Rightarrow> MeasurementLog \<Rightarrow> 's
       \<Rightarrow> MeasurementLog \<times> 's" where
  "autoScan len fn count_opt lg s =
     (let count = (case count_opt of None \<Rightarrow> 24 | Some c \<Rightarrow> c);
          lg1 = clear lg;
          step = jdiv len (Num (of_int (count - 1)))
      in autoScan_loop fn step count 0 lg1 s)"

section \<open>The experiment with a fixed noise level\<close>

text \<open>
  The fields of \<open>VarAreaExperiment\<close> (in \<open>gpt-ver/main.js\<close>) that the simulation reads;
  the user-interface fields are left out. \<open>randomGaussian\<close> belongs to p5.js: the noise
  source is a state \<open>'g\<close> with a function \<open>draw\<close> that returns one finite standard-normal
  sample and the next state.
\<close>

record VarAreaExperiment =
  length_e :: jsnum
  rho_e :: jsnum
  areaProfile :: AreaProfile
  currentA :: jsnum
  noiseStd :: jsnum
  probeX :: jsnum
  log_m :: MeasurementLog

definition VarAreaExperiment_new :: "int \<Rightarrow> js_error + VarAreaExperiment" where
  "VarAreaExperiment_new entropy =
     (let len = Num 1.0;
          r = Num (17 / 10 ^ 9)
      in case AreaProfile_new entropy
             \<lparr> opt_length = Some len, opt_samples = None, opt_minArea = None,
               opt_maxArea = None, opt_seed = None \<rparr> of
           Inl e \<Rightarrow> Inl e
         | Inr p \<Rightarrow>
             Inr \<lparr> length_e = len, rho_e = r, areaProfile = precompute r p,
                   currentA = Num 0.25, noiseStd = Num 0.003, probeX = Num 0.35,
                   log_m = MeasurementLog_new \<rparr>)"

definition measureVoltage ::
    "('g \<Rightarrow> real \<times> 'g) \<Rightarrow> VarAreaExperiment \<Rightarrow> jsnum \<Rightarrow> 'g \<Rightarrow> jsnum \<times> 'g" where
  "measureVoltage draw e x g =
     (let noiseless = jmul (currentA e) (resistanceUpTo (areaProfile e) x);
          (z, g') = draw g;
          noise = jmul (noiseStd e) (Num z)
      in (jadd noiseless noise, g'))"

definition addReading ::
    "('g \<Rightarrow> real \<times> 'g) \<Rightarrow> VarAreaExperiment \<Rightarrow> 'g \<Rightarrow> VarAreaExperiment \<times> 'g" where
  "addReading draw e g =
     (let (v, g') = measureVoltage draw e (probeX e) g
      in (e\<lparr>log_m := add (probeX e) v (log_m e)\<rparr>, g'))"

definition experiment_autoScan ::
    "('g \<Rightarrow> real \<times> 'g) \<Rightarrow> VarAreaExperiment \<Rightarrow> 'g \<Rightarrow> VarAreaExperiment \<times> 'g" where
  "experiment_autoScan draw e g =
     (let (lg, g') = autoScan (length_e e) (measureVoltage draw e) (Some 24) (log_m e) g
      in (e\<lparr>log_m := lg\<rparr>, g'))"

section \<open>The experiment with Johnson noise\<close>

text \<open>
  The class \<open>VarAreaExperiment\<close> of the exponential-taper sketch: the fields the
  simulation reads, each with the prefix \<open>ph_\<close>. The arrow functions \<open>radiusAt\<close> and
  \<open>areaAt\<close> read \<open>r0\<close> and \<open>ell\<close> from the object.
\<close>

record PhysExperiment =
  ph_L :: jsnum
  ph_ell :: jsnum
  ph_r0 :: jsnum
  ph_rho :: jsnum
  ph_totalR :: jsnum
  ph_samples :: int
  ph_dx :: jsnum
  ph_rng :: Mulberry32
  ph_currentA :: jsnum
  ph_noiseStd :: jsnum
  ph_probeX :: jsnum
  ph_k_b :: jsnum
  ph_tempK :: jsnum
  ph_noiseBW :: jsnum
  ph_cumulative :: "jsnum list"
  ph_readings :: "(jsnum \<times> jsnum) list"

definition ph_radiusAt :: "PhysExperiment \<Rightarrow> jsnum \<Rightarrow> jsnum" where
  "ph_radiusAt e x = jmul (ph_r0 e) (Math_exp (jdiv (jneg x) (ph_ell e)))"

definition ph_areaAt :: "PhysExperiment \<Rightarrow> jsnum \<Rightarrow> jsnum" where
  "ph_areaAt e x = jmul (Num pi) (Math_pow (ph_radiusAt e x) 2)"

function ph_cumulative_loop :: "nat \<Rightarrow> PhysExperiment \<Rightarrow> PhysExperiment" where
  "ph_cumulative_loop i e =
     (if int i < ph_samples e then
        (let x = jmul (Num (real i)) (ph_dx e);
             dR = jdiv (jmul (ph_rho e) (ph_dx e)) (ph_areaAt e x)
         in ph_cumulative_loop (Suc i)
              (e\<lparr>ph_cumulative := aset (ph_cumulative e) i
                    (jadd (aget (ph_cumulative e) (int i - 1)) dR)\<rparr>))
      else e)"
  by pat_completeness (simp only: prod.inject)
termination
  by (relation "measure (\<lambda>(i, e). nat (ph_samples e - int i))") simp_all

declare ph_cumulative_loop.simps [simp del]

text \<open>
  The constructor: its field assignments, with \<open>c\<close> the array \<open>new Array(512).fill(0)\<close>,
  and then its loop.
\<close>

definition ph_fields :: "int \<Rightarrow> jsnum list \<Rightarrow> PhysExperiment" where
  "ph_fields entropy c =
     \<lparr> ph_L = Num 0.01, ph_ell = Num 0.008, ph_r0 = Num 0.0004, ph_rho = Num (1 / 10 ^ 4),
       ph_totalR = Num 1.0, ph_samples = 512,
       ph_dx = jdiv (Num 0.01) (Num (of_int (512 - 1))),
       ph_rng = Mulberry32_new entropy,
       ph_currentA = Num 0.25, ph_noiseStd = Num 0.5, ph_probeX = Num 0.35,
       ph_k_b = Num (1.380649 / 10 ^ 23), ph_tempK = Num 300,
       ph_noiseBW = Num (9 * 10 ^ 9),
       ph_cumulative = c, ph_readings = [] \<rparr>"

definition PhysExperiment_new :: "int \<Rightarrow> js_error + PhysExperiment" where
  "PhysExperiment_new entropy =
     (case new_Array_fill 512 (Num 0) of
        Inl e \<Rightarrow> Inl e
      | Inr c \<Rightarrow> Inr (ph_cumulative_loop 1 (ph_fields entropy c)))"

text \<open>The handler of the button \<open>Add Reading\<close>; \<open>z\<close> is the value of \<open>randomGaussian()\<close>.\<close>

definition ph_addReading :: "real \<Rightarrow> PhysExperiment \<Rightarrow> PhysExperiment" where
  "ph_addReading z e =
     (let idx = constrain (Math_floor (jdiv (ph_probeX e) (ph_dx e))) (Num 0)
                  (Num (real (length (ph_cumulative e)) - 1));
          res_curr = jget (ph_cumulative e) idx;
          vIdeal = jmul (ph_currentA e) res_curr;
          johnsonStd = Math_sqrt (jmul (jmul (jmul (jmul (Num 4) (ph_k_b e)) (ph_tempK e)) res_curr)
                         (ph_noiseBW e));
          ampStd = Num 0.003;
          totalStd = Math_sqrt (jadd (jmul johnsonStd johnsonStd) (jmul ampStd ampStd));
          vMeas = jadd vIdeal (jmul totalStd (Num z))
      in e\<lparr>ph_readings := ph_readings e @ [(ph_probeX e, vMeas)]\<rparr>)"

section \<open>Auxiliary notions for the proofs\<close>

text \<open>The resistance that \<open>precompute\<close> adds for sample \<open>i\<close>.\<close>

definition dR :: "jsnum \<Rightarrow> AreaProfile \<Rightarrow> nat \<Rightarrow> jsnum" where
  "dR rho p i = jmul (jdiv rho (jmul (aget (area p) (int i)) (Num (1 / 10 ^ 6)))) (dx p)"


text \<open>
  What the constructor establishes: both arrays have \<open>samples\<close> entries and \<open>dx\<close> is
  the length divided by \<open>samples - 1\<close>.
\<close>

definition wf_profile :: "AreaProfile \<Rightarrow> bool" where
  "wf_profile p \<longleftrightarrow>
     0 \<le> samples p \<and> length (area p) = nat (samples p) \<and>
     length (cumulative p) = nat (samples p) \<and>
     dx p = jdiv (length_m p) (Num (of_int (samples p - 1)))"


text \<open>
  Linear interpolation in a list of reals at a fractional index, as \<open>areaAt\<close> and
  \<open>resistanceUpTo\<close> perform it on finite entries.
\<close>

definition interp :: "real list \<Rightarrow> real \<Rightarrow> real" where
  "interp cs idx =
     (let i0 = \<lfloor>idx\<rfloor>;
          i1 = min (int (length cs) - 1) (i0 + 1);
          f = idx - of_int i0
      in f * (cs ! nat i1 - cs ! nat i0) + cs ! nat i0)"


text \<open>A small well-formed profile on which the theorems below are instantiated.\<close>

definition example_profile :: AreaProfile where
  "example_profile =
     \<lparr> length_m = Num 1, samples = 3, minArea = Num 0.6, maxArea = Num 3.2,
       rng = \<lparr> state = 42 \<rparr>, area = [Num 1, Num 2, Num 3], dx = Num (1 / 2),
       cumulative = [Num 0, Num 0, Num 0], totalR = Num 1 \<rparr>"

text \<open>
  Calling a callback once on each position of a list, in order, threading its state:
  the samples it produces and the final state.
\<close>

fun scan_calls ::
    "(jsnum \<Rightarrow> 's \<Rightarrow> jsnum \<times> 's) \<Rightarrow> jsnum list \<Rightarrow> 's \<Rightarrow> MeasurementSample list \<times> 's" where
  "scan_calls fn [] s = ([], s)"
| "scan_calls fn (x # xs) s =
     (let (v, s1) = fn x s;
          (rest, s2) = scan_calls fn xs s1
      in (\<lparr> sample_x = x, sample_v = v \<rparr> # rest, s2))"

text \<open>The positions \<open>i * L / (count - 1)\<close> for \<open>i = 0, \<dots>, count - 1\<close>.\<close>

definition scan_positions :: "real \<Rightarrow> int \<Rightarrow> jsnum list" where
  "scan_positions L count = map (\<lambda>i. Num (real i * L / of_int (count - 1))) [0..<nat count]"

text \<open>An experiment without noise on the small profile, after \<open>precompute\<close>.\<close>

definition example_experiment :: VarAreaExperiment where
  "example_experiment =
     \<lparr> length_e = Num 1, rho_e = Num (17 / 10 ^ 9),
       areaProfile = precompute (Num (17 / 10 ^ 9)) example_profile,
       currentA = Num 0.25, noiseStd = Num 0, probeX = Num 0.35,
       log_m = MeasurementLog_new \<rparr>"

text \<open>The resistance that the constructor of the Johnson-noise experiment adds for sample \<open>i\<close>.\<close>

definition ph_dR :: "PhysExperiment \<Rightarrow> nat \<Rightarrow> jsnum" where
  "ph_dR e i = jdiv (jmul (ph_rho e) (ph_dx e)) (ph_areaAt e (jmul (Num (real i)) (ph_dx e)))"

text \<open>A noise source that returns the fixed value \<open>z\<close> and counts its draws.\<close>

definition fixed_draw :: "real \<Rightarrow> nat \<Rightarrow> real \<times> nat" where
  "fixed_draw z g = (z, Suc g)"

text \<open>
  Modelled from the spec: the Johnson-noise sketch has no query function of its own. The
  specification's \<open>resistanceUpTo\<close> interpolates linearly between the two nearest
  samples after clamping the position into the bar; this is that query on the sketch's
  cumulative array.
\<close>

definition ph_resistanceUpTo :: "PhysExperiment \<Rightarrow> jsnum \<Rightarrow> jsnum" where
  "ph_resistanceUpTo e x =
     (let t = constrain (jdiv x (ph_L e)) (Num 0) (Num 1);
          idx = jmul t (Num (of_int (ph_samples e - 1)));
          i0 = Math_floor idx;
          i1 = Math_min (Num (of_int (ph_samples e - 1))) (jadd i0 (Num 1));
          f = jsub idx i0
      in lerp (jget (ph_cumulative e) i0) (jget (ph_cumulative e) i1) f)"

text \<open>
  The voltage that the specification prescribes for a reading at the probe, with the
  interpolated resistance and an instrument noise of 3 mV.
\<close>

definition ph_spec_voltage :: "real \<Rightarrow> PhysExperiment \<Rightarrow> jsnum" where
  "ph_spec_voltage z e =
     (let R = ph_resistanceUpTo e (ph_probeX e);
          johnsonStd = Math_sqrt (jmul (jmul (jmul (jmul (Num 4) (ph_k_b e)) (ph_tempK e)) R)
                         (ph_noiseBW e));
          instrumentStd = Num 0.003;
          totalStd = Math_sqrt (jadd (jmul johnsonStd johnsonStd)
                       (jmul instrumentStd instrumentStd))
      in jadd (jmul (ph_currentA e) R) (jmul totalStd (Num z)))"

text \<open>
  The Johnson-noise experiment as its constructor leaves it, and the same with the probe
  moved to the middle of the first interval (half of \<open>dx = 0.01 / 511\<close>).
\<close>

definition ph_constructed :: "int \<Rightarrow> PhysExperiment" where
  "ph_constructed entropy = ph_cumulative_loop 1 (ph_fields entropy (replicate 512 (Num 0)))"

definition ph_probe_state :: PhysExperiment where
  "ph_probe_state = (ph_constructed 0)\<lparr>ph_probeX := Num (1 / 102200)\<rparr>"

text \<open>A small state of the Johnson-noise experiment with three samples.\<close>

definition ph_small_state :: PhysExperiment where
  "ph_small_state =
     \<lparr> ph_L = Num 1, ph_ell = Num 1, ph_r0 = Num 1, ph_rho = Num 1, ph_totalR = Num 1,
       ph_samples = 3, ph_dx = Num (1 / 2), ph_rng = \<lparr> state = 0 \<rparr>,
       ph_currentA = Num 2, ph_noiseStd = Num 0.5, ph_probeX = Num (3 / 4),
       ph_k_b = Num 1, ph_tempK = Num 1, ph_noiseBW = Num 1,
       ph_cumulative = [Num 0, Num 4, Num 9], ph_readings = [] \<rparr>"

text \<open>
  The generator after \<open>k\<close> more draws, and the value of the draw after \<open>k\<close> others:
  \<open>draw_at g 0\<close> is what the next call of \<open>next\<close> returns.
\<close>

definition advance :: "Mulberry32 \<Rightarrow> nat \<Rightarrow> Mulberry32" where
  "advance g k = g\<lparr>state := state g + int k * 0x6D2B79F5\<rparr>"

definition draw_at :: "Mulberry32 \<Rightarrow> nat \<Rightarrow> real" where
  "draw_at g k = fst (Mulberry32_next (advance g k))"

text \<open>
  The sum of \<open>n\<close> lobes at the normalised position \<open>t\<close>, lobe \<open>j\<close> taking its phase from
  draw \<open>2 j\<close> and its frequency from draw \<open>2 j + 1\<close> of the generator \<open>g\<close>.
\<close>

definition lobe_sum :: "Mulberry32 \<Rightarrow> nat \<Rightarrow> real \<Rightarrow> real" where
  "lobe_sum g n t =
     (\<Sum>j<n. 0.6 * sin ((0.7 + draw_at g (2 * j + 1) * 1.3) * pi * t + draw_at g (2 * j) * pi * 2))"

text \<open>The options \<open>{samples: n, seed: s}\<close>.\<close>

definition opts_samples_seed :: "int \<Rightarrow> int \<Rightarrow> AreaOpts" where
  "opts_samples_seed n s =
     \<lparr> opt_length = None, opt_samples = Some n, opt_minArea = None, opt_maxArea = None,
       opt_seed = Some s \<rparr>"

text \<open>
  The area that \<open>generate\<close> stores for sample \<open>i\<close> of \<open>n\<close> when the generator is \<open>g\<close> at the
  start of the sample: the lobes take the next \<open>2 * lobes\<close> draws and the jitter the one
  after them.
\<close>

definition sample_area :: "int \<Rightarrow> int \<Rightarrow> jsnum \<Rightarrow> jsnum \<Rightarrow> Mulberry32 \<Rightarrow> nat \<Rightarrow> jsnum" where
  "sample_area lobes n lo hi g i =
     Math_min hi (Math_max lo
       (jadd (fst (lobe_loop 0 lobes (jdiv (Num (real i)) (Num (of_int (n - 1)))) (Num 1.4) g))
          (jmul (Num 0.3) (Num (draw_at g (2 * nat lobes) - 0.5)))))"

text \<open>The profile that the constructor builds from the options \<open>{samples: 2, seed: 42}\<close>.\<close>

definition seed42_profile :: AreaProfile where
  "seed42_profile = projr (AreaProfile_new 0 (opts_samples_seed 2 42))"

text \<open>The number of lobes that \<open>generate\<close> derives from its first draw.\<close>

definition lobe_count :: "Mulberry32 \<Rightarrow> int" where
  "lobe_count g = 2 + \<lfloor>draw_at g 0 * 3\<rfloor>"

text \<open>The object that the constructor hands to \<open>generate\<close>, when its arrays can be built.\<close>

definition initial_profile :: "int \<Rightarrow> AreaOpts \<Rightarrow> AreaProfile" where
  "initial_profile entropy opts =
     (let len = (case opt_length opts of None \<Rightarrow> Num 1.0 | Some v \<Rightarrow> v);
          n = (case opt_samples opts of None \<Rightarrow> 512 | Some v \<Rightarrow> v)
      in \<lparr> length_m = len, samples = n,
           minArea = (case opt_minArea opts of None \<Rightarrow> Num 0.6 | Some v \<Rightarrow> v),
           maxArea = (case opt_maxArea opts of None \<Rightarrow> Num 3.2 | Some v \<Rightarrow> v),
           rng = Mulberry32_new (case opt_seed opts of None \<Rightarrow> entropy | Some v \<Rightarrow> v),
           area = replicate (nat n) (Num 1), dx = jdiv len (Num (of_int (n - 1))),
           cumulative = replicate (nat n) (Num 0), totalR = Num 1 \<rparr>)"

text \<open>The options \<open>{length: 0, samples: 1, seed: 42}\<close>: a bar without length and one sample.\<close>

definition degenerate_opts :: AreaOpts where
  "degenerate_opts =
     \<lparr> opt_length = Some (Num 0), opt_samples = Some 1, opt_minArea = None,
       opt_maxArea = None, opt_seed = Some 42 \<rparr>"

section \<open>Arithmetic on finite numbers\<close>

lemma jmul_Num [simp]: "jmul (Num a) (Num b) = Num (a * b)"
  by (simp add: jmul_def)

lemma jdiv_Num [simp]: "b \<noteq> 0 \<Longrightarrow> jdiv (Num a) (Num b) = Num (a / b)"
  by (simp add: jdiv_def)

lemma jsub_Num [simp]: "jsub (Num a) (Num b) = Num (a - b)"
  by (simp add: jsub_def)

lemma Math_min_Num [simp]: "Math_min (Num a) (Num b) = Num (min a b)"
  by (simp add: Math_min_def min_def)

lemma Math_max_Num [simp]: "Math_max (Num a) (Num b) = Num (max a b)"
  by (simp add: Math_max_def max_def)

lemma constrain_Num [simp]: "constrain (Num a) (Num lo) (Num hi) = Num (max (min a hi) lo)"
  by (simp add: constrain_def)

lemma lerp_Num [simp]: "lerp (Num a) (Num b) (Num f) = Num (f * (b - a) + a)"
  by (simp add: lerp_def)

lemma constrain_unit:
  assumes "0 < L"
  shows "constrain (jdiv (constrain x (Num 0) (Num L)) (Num L)) (Num 0) (Num 1)
       = constrain (jdiv x (Num L)) (Num 0) (Num 1)"
proof (cases x)
  case (Num r)
  have "max (min (max (min r L) 0 / L) 1) 0 = max (min (r / L) 1) 0"
    using assms by (auto simp: max_def min_def field_simps)
  with Num assms show ?thesis by simp
qed (use assms in \<open>simp_all add: constrain_def Math_min_def Math_max_def jdiv_def\<close>)

lemma areaAt_clamp:
  "length_m p = Num L \<Longrightarrow> 0 < L \<Longrightarrow> areaAt p (constrain x (Num 0) (Num L)) = areaAt p x"
  by (simp add: areaAt_def constrain_unit)

lemma resistanceUpTo_clamp:
  "length_m p = Num L \<Longrightarrow> 0 < L \<Longrightarrow> resistanceUpTo p (constrain x (Num 0) (Num L)) = resistanceUpTo p x"
  by (simp add: resistanceUpTo_def constrain_unit)

lemma jlt_Num [simp]: "jlt (Num a) (Num b) = (a < b)"
  by (auto simp: jlt_def)

lemma jadd_zero_right [simp]: "jadd v (Num 0) = v"
  by (cases v) simp_all

lemma Math_pow_Num [simp]: "Math_pow (Num r) n = Num (r ^ n)"
  by (cases n) simp_all

lemma Math_sqrt_Num [simp]: "0 \<le> r \<Longrightarrow> Math_sqrt (Num r) = Num (sqrt r)"
  by simp

section \<open>The cumulative array\<close>

lemma length_aset: "length (aset xs i v) = max (length xs) (Suc i)"
  by (auto simp: aset_def)

lemma nth_aset_same: "aset xs i v ! i = v"
  by (auto simp: aset_def nth_append)

lemma nth_aset_other: "j < length xs \<Longrightarrow> j \<noteq> i \<Longrightarrow> aset xs i v ! j = xs ! j"
  by (auto simp: aset_def nth_append)

lemma aget_nth: "i < length xs \<Longrightarrow> aget xs (int i) = xs ! i"
  by (simp add: aget_def)

lemma precompute_loop_step:
  "int i < samples p \<Longrightarrow>
   precompute_loop rho i p =
   precompute_loop rho (Suc i)
     (p\<lparr>cumulative := aset (cumulative p) i (jadd (aget (cumulative p) (int i - 1)) (dR rho p i))\<rparr>)"
  by (subst precompute_loop.simps) (simp add: dR_def)

lemma precompute_loop_stop:
  "\<not> int i < samples p \<Longrightarrow> precompute_loop rho i p = p"
  by (subst precompute_loop.simps) simp

lemma precompute_loop_frame:
  "precompute_loop rho i p = p\<lparr>cumulative := cumulative (precompute_loop rho i p)\<rparr>"
proof (induction rho i p rule: precompute_loop.induct)
  case (1 rho i p)
  show ?case
  proof (cases "int i < samples p")
    case True
    let ?p' = "p\<lparr>cumulative := aset (cumulative p) i (jadd (aget (cumulative p) (int i - 1)) (dR rho p i))\<rparr>"
    have ih: "precompute_loop rho (Suc i) ?p' = ?p'\<lparr>cumulative := cumulative (precompute_loop rho (Suc i) ?p')\<rparr>"
      using "1.IH" [OF True refl refl] by (simp add: dR_def)
    have "precompute_loop rho i p = precompute_loop rho (Suc i) ?p'"
      using True by (rule precompute_loop_step)
    then show ?thesis using ih by simp
  next
    case False
    then show ?thesis by (simp add: precompute_loop_stop)
  qed
qed

lemma dR_cumulative_update [simp]: "dR rho (p\<lparr>cumulative := c\<rparr>) j = dR rho p j"
  by (simp add: dR_def)

lemma precompute_loop_cum:
  assumes "1 \<le> i" "i \<le> length (cumulative p)"
  shows "length (cumulative (precompute_loop rho i p)) = max (length (cumulative p)) (nat (samples p))
    \<and> (\<forall>j<i. cumulative (precompute_loop rho i p) ! j = cumulative p ! j)
    \<and> (\<forall>j. i \<le> j \<and> int j < samples p \<longrightarrow>
          cumulative (precompute_loop rho i p) ! j
            = jadd (cumulative (precompute_loop rho i p) ! (j - 1)) (dR rho p j))
    \<and> (\<forall>j. i \<le> j \<and> samples p \<le> int j \<and> j < length (cumulative p) \<longrightarrow>
          cumulative (precompute_loop rho i p) ! j = cumulative p ! j)"
  using assms
proof (induction rho i p rule: precompute_loop.induct)
  case (1 rho i p)
  show ?case
  proof (cases "int i < samples p")
    case False
    with "1.prems" show ?thesis by (auto simp: precompute_loop_stop)
  next
    case True
    let ?v = "jadd (aget (cumulative p) (int i - 1)) (dR rho p i)"
    let ?p' = "p\<lparr>cumulative := aset (cumulative p) i ?v\<rparr>"
    let ?c = "cumulative (precompute_loop rho (Suc i) ?p')"
    have eq: "precompute_loop rho i p = precompute_loop rho (Suc i) ?p'"
      using True by (rule precompute_loop_step)
    have len': "length (cumulative ?p') = max (length (cumulative p)) (Suc i)"
      by (simp add: length_aset)
    have ih: "length ?c = max (length (cumulative ?p')) (nat (samples ?p'))
      \<and> (\<forall>j<Suc i. ?c ! j = cumulative ?p' ! j)
      \<and> (\<forall>j. Suc i \<le> j \<and> int j < samples ?p' \<longrightarrow> ?c ! j = jadd (?c ! (j - 1)) (dR rho ?p' j))
      \<and> (\<forall>j. Suc i \<le> j \<and> samples ?p' \<le> int j \<and> j < length (cumulative ?p') \<longrightarrow>
            ?c ! j = cumulative ?p' ! j)"
      using "1.IH" [OF True refl refl] len' by (simp add: dR_def)
    have prev: "aget (cumulative p) (int i - 1) = cumulative p ! (i - 1)"
      using "1.prems" aget_nth [of "i - 1" "cumulative p"] by simp
    have c1: "length ?c = max (length (cumulative p)) (nat (samples p))"
      using ih True len' by simp
    have c2: "\<forall>j<i. ?c ! j = cumulative p ! j"
      using ih "1.prems" by (simp add: nth_aset_other)
    have ci: "?c ! i = ?v"
      using ih by (simp add: nth_aset_same)
    have c3: "\<forall>j. i \<le> j \<and> int j < samples p \<longrightarrow> ?c ! j = jadd (?c ! (j - 1)) (dR rho p j)"
    proof (intro allI impI)
      fix j assume j: "i \<le> j \<and> int j < samples p"
      show "?c ! j = jadd (?c ! (j - 1)) (dR rho p j)"
      proof (cases "j = i")
        case True
        have "?c ! (i - 1) = cumulative p ! (i - 1)"
          using c2 "1.prems" by simp
        then show ?thesis using True ci prev by simp
      next
        case False
        then show ?thesis using ih j by simp
      qed
    qed
    have c4: "\<forall>j. i \<le> j \<and> samples p \<le> int j \<and> j < length (cumulative p) \<longrightarrow> ?c ! j = cumulative p ! j"
      using ih True len' by (auto simp: nth_aset_other)
    show ?thesis unfolding eq using c1 c2 c3 c4 by blast
  qed
qed

lemma precompute_unfold:
  "precompute rho p =
     p\<lparr>cumulative := cumulative (precompute rho p),
       totalR := aget (cumulative (precompute rho p)) (samples p - 1)\<rparr>"
proof -
  let ?p0 = "p\<lparr>cumulative := aset (cumulative p) 0 (Num 0)\<rparr>"
  let ?p1 = "precompute_loop rho 1 ?p0"
  have f: "?p1 = ?p0\<lparr>cumulative := cumulative ?p1\<rparr>"
    by (rule precompute_loop_frame)
  have s: "samples ?p1 = samples p"
    by (subst f) simp
  have "precompute rho p = ?p1\<lparr>totalR := aget (cumulative ?p1) (samples ?p1 - 1)\<rparr>"
    by (simp add: precompute_def Let_def)
  also have "\<dots> = ?p0\<lparr>cumulative := cumulative ?p1, totalR := aget (cumulative ?p1) (samples p - 1)\<rparr>"
    using f s by simp
  finally have e: "precompute rho p = p\<lparr>cumulative := cumulative ?p1, totalR := aget (cumulative ?p1) (samples p - 1)\<rparr>"
    by simp
  have "cumulative (precompute rho p) = cumulative ?p1"
    by (subst e) simp
  with e show ?thesis by simp
qed

lemma precompute_fields:
  "samples (precompute rho p) = samples p"
  "area (precompute rho p) = area p"
  "dx (precompute rho p) = dx p"
  "length_m (precompute rho p) = length_m p"
  "totalR (precompute rho p) = aget (cumulative (precompute rho p)) (samples p - 1)"
  by (subst precompute_unfold, simp)+

lemma precompute_cum:
  "length (cumulative (precompute rho p)) = max (length (cumulative p)) (max 1 (nat (samples p)))"
  "cumulative (precompute rho p) ! 0 = Num 0"
  "1 \<le> j \<Longrightarrow> int j < samples p \<Longrightarrow>
     cumulative (precompute rho p) ! j = jadd (cumulative (precompute rho p) ! (j - 1)) (dR rho p j)"
  "1 \<le> j \<Longrightarrow> samples p \<le> int j \<Longrightarrow> j < length (cumulative p) \<Longrightarrow>
     cumulative (precompute rho p) ! j = cumulative p ! j"
proof -
  let ?p0 = "p\<lparr>cumulative := aset (cumulative p) 0 (Num 0)\<rparr>"
  let ?p1 = "precompute_loop rho 1 ?p0"
  have c: "cumulative (precompute rho p) = cumulative ?p1"
    by (simp add: precompute_def Let_def)
  have l0: "length (cumulative ?p0) = max (length (cumulative p)) 1"
    by (simp add: length_aset)
  then have "1 \<le> length (cumulative ?p0)" by simp
  note L = precompute_loop_cum [OF order_refl this, of rho]
  show "length (cumulative (precompute rho p)) = max (length (cumulative p)) (max 1 (nat (samples p)))"
    using L l0 c by simp
  have "cumulative ?p1 ! 0 = cumulative ?p0 ! 0"
    using L by simp
  then show "cumulative (precompute rho p) ! 0 = Num 0"
    using c by (simp add: nth_aset_same)
  show "cumulative (precompute rho p) ! j = jadd (cumulative (precompute rho p) ! (j - 1)) (dR rho p j)"
    if "1 \<le> j" "int j < samples p"
    using L that c by simp
  show "cumulative (precompute rho p) ! j = cumulative p ! j"
    if "1 \<le> j" "samples p \<le> int j" "j < length (cumulative p)"
  proof -
    have "cumulative ?p1 ! j = cumulative ?p0 ! j"
      using L that l0 by simp
    then show ?thesis using that c by (simp add: nth_aset_other)
  qed
qed

lemma precompute_twice_cumulative:
  "cumulative (precompute rho (precompute rho p)) = cumulative (precompute rho p)"
proof (rule nth_equalityI)
  let ?q = "precompute rho p"
  show len: "length (cumulative (precompute rho ?q)) = length (cumulative ?q)"
    by (simp add: precompute_cum(1) precompute_fields)
  fix j assume "j < length (cumulative (precompute rho ?q))"
  then have "j < length (cumulative ?q)" using len by simp
  then show "cumulative (precompute rho ?q) ! j = cumulative ?q ! j"
  proof (induction j)
    case 0
    show ?case by (simp add: precompute_cum(2))
  next
    case (Suc j)
    show ?case
    proof (cases "int (Suc j) < samples p")
      case True
      have d: "dR rho ?q (Suc j) = dR rho p (Suc j)"
        by (simp add: dR_def precompute_fields)
      have "cumulative (precompute rho ?q) ! Suc j
              = jadd (cumulative (precompute rho ?q) ! j) (dR rho ?q (Suc j))"
        using precompute_cum(3) [of "Suc j" ?q rho] True by (simp add: precompute_fields)
      also have "\<dots> = jadd (cumulative ?q ! j) (dR rho p (Suc j))"
        using Suc d by simp
      also have "\<dots> = cumulative ?q ! Suc j"
        using precompute_cum(3) [of "Suc j" p rho] True by simp
      finally show ?thesis .
    next
      case False
      then show ?thesis
        using precompute_cum(4) [of "Suc j" ?q rho] Suc.prems by (simp add: precompute_fields)
    qed
  qed
qed

lemma precompute_twice:
  "precompute rho (precompute rho p) = precompute rho p"
proof -
  let ?q = "precompute rho p"
  have "precompute rho ?q =
      ?q\<lparr>cumulative := cumulative (precompute rho ?q),
         totalR := aget (cumulative (precompute rho ?q)) (samples ?q - 1)\<rparr>"
    by (rule precompute_unfold)
  also have "\<dots> = ?q\<lparr>cumulative := cumulative ?q, totalR := totalR ?q\<rparr>"
    by (simp add: precompute_twice_cumulative precompute_fields)
  also have "\<dots> = ?q" by simp
  finally show ?thesis .
qed

lemma dR_finite:
  assumes wf: "wf_profile p" and L: "length_m p = Num L"
    and ar: "area p = map Num as" and nz: "\<forall>a\<in>set as. a \<noteq> 0"
    and j: "1 \<le> j" "int j < samples p"
  shows "dR (Num r) p j = Num (r * (L / of_int (samples p - 1)) / (as ! j * (1 / 10 ^ 6)))"
proof -
  have len: "length as = nat (samples p)"
    using wf ar by (simp add: wf_profile_def)
  then have jl: "j < length as" using j by simp
  then have a: "aget (area p) (int j) = Num (as ! j)"
    using ar by (simp add: aget_def)
  have anz: "as ! j \<noteq> 0" using nz jl by simp
  have "real_of_int (samples p - 1) \<noteq> 0" using j by simp
  then have d: "dx p = Num (L / of_int (samples p - 1))"
    using wf L by (simp add: wf_profile_def)
  show ?thesis
    using anz by (simp add: dR_def a d mult_ac)
qed

lemma precompute_finite:
  assumes wf: "wf_profile p" and N: "1 \<le> samples p" and L: "length_m p = Num L"
    and ar: "area p = map Num as" and nz: "\<forall>a\<in>set as. a \<noteq> 0"
  shows "\<exists>cs. cumulative (precompute (Num r) p) = map Num cs \<and> length cs = nat (samples p)
           \<and> cs ! 0 = 0
           \<and> (\<forall>i. 1 \<le> i \<and> int i < samples p \<longrightarrow>
                 cs ! i = cs ! (i - 1) + r * (L / of_int (samples p - 1)) / (as ! i * (1 / 10 ^ 6)))"
proof -
  let ?C = "cumulative (precompute (Num r) p)"
  let ?d = "\<lambda>i. r * (L / of_int (samples p - 1)) / (as ! i * (1 / 10 ^ 6))"
  have len: "length ?C = nat (samples p)"
    using wf N by (simp add: precompute_cum(1) wf_profile_def)
  have rec: "?C ! j = jadd (?C ! (j - 1)) (Num (?d j))" if "1 \<le> j" "int j < samples p" for j
    using precompute_cum(3) [OF that, of "Num r"] dR_finite [OF wf L ar nz that, of r] by simp
  have finite: "int j < samples p \<Longrightarrow> is_fin (?C ! j)" for j
  proof (induction j)
    case 0
    show ?case by (simp add: precompute_cum(2))
  next
    case (Suc j)
    then have "is_fin (?C ! j)" by simp
    then obtain c where "?C ! j = Num c" by (cases "?C ! j") simp_all
    then show ?case using rec [of "Suc j"] Suc.prems by simp
  qed
  have num: "int j < samples p \<Longrightarrow> ?C ! j = Num (fin (?C ! j))" for j
    using finite [of j] by (cases "?C ! j") simp_all
  let ?cs = "map fin ?C"
  have 1: "?C = map Num ?cs"
    by (rule nth_equalityI) (use len num in auto)
  have 2: "length ?cs = nat (samples p)" using len by simp
  have 3: "?cs ! 0 = 0" using len N by (simp add: precompute_cum(2))
  have 4: "?cs ! i = ?cs ! (i - 1) + ?d i" if "1 \<le> i \<and> int i < samples p" for i
  proof -
    have "?C ! i = jadd (Num (fin (?C ! (i - 1)))) (Num (?d i))"
      using rec [of i] num [of "i - 1"] that by simp
    moreover have "i < length ?C" "i - 1 < length ?C" using that len by auto
    ultimately show ?thesis by (simp only: nth_map fin.simps jadd.simps)
  qed
  show ?thesis using 1 2 3 4 by blast
qed

section \<open>Interpolated queries\<close>

lemma jget_map_Num:
  "0 \<le> k \<Longrightarrow> k < int (length cs) \<Longrightarrow> jget (map Num cs) (Num (of_int k)) = Num (cs ! nat k)"
  by (simp add: jget_def aget_def)

lemma query_fin:
  assumes len: "length cs = nat n" and N: "1 \<le> n" and L: "L \<noteq> 0"
  shows "(let t = constrain (jdiv (Num x) (Num L)) (Num 0) (Num 1);
              idx = jmul t (Num (of_int (n - 1)));
              i0 = Math_floor idx;
              i1 = Math_min (Num (of_int (n - 1))) (jadd i0 (Num 1));
              f = jsub idx i0
          in lerp (jget (map Num cs) i0) (jget (map Num cs) i1) f)
         = Num (interp cs (max (min (x / L) 1) 0 * of_int (n - 1)))"
proof -
  define t where "t = max (min (x / L) 1) 0"
  define idx where "idx = t * of_int (n - 1)"
  have t01: "0 \<le> t" "t \<le> 1" by (simp_all add: t_def)
  have n1: "0 \<le> real_of_int (n - 1)" using N by simp
  have idx0: "0 \<le> idx" using t01 n1 by (simp add: idx_def)
  have "idx \<le> 1 * of_int (n - 1)"
    unfolding idx_def using t01 n1 by (intro mult_right_mono) simp_all
  then have idxN: "idx \<le> of_int (n - 1)" by simp
  have f0: "0 \<le> \<lfloor>idx\<rfloor>" using idx0 by simp
  have "\<lfloor>idx\<rfloor> \<le> \<lfloor>real_of_int (n - 1)\<rfloor>" using idxN by (rule floor_mono)
  then have fN: "\<lfloor>idx\<rfloor> \<le> n - 1" by (simp only: floor_of_int)
  define i1 where "i1 = min (n - 1) (\<lfloor>idx\<rfloor> + 1)"
  have i1: "0 \<le> i1" "i1 < int (length cs)" using f0 fN N len by (simp_all add: i1_def)
  have i0: "\<lfloor>idx\<rfloor> < int (length cs)" using fN N len by simp
  have e1: "constrain (jdiv (Num x) (Num L)) (Num 0) (Num 1) = Num t"
    using L by (simp add: t_def)
  have e2: "jmul (Num t) (Num (of_int (n - 1))) = Num idx"
    by (simp add: idx_def)
  have e3: "Math_min (Num (of_int (n - 1))) (jadd (Math_floor (Num idx)) (Num 1)) = Num (of_int i1)"
    by (simp add: i1_def min_def)
  have e4: "int (length cs) - 1 = n - 1" using len N by simp
  have L1: "(let t = constrain (jdiv (Num x) (Num L)) (Num 0) (Num 1);
              idx = jmul t (Num (of_int (n - 1)));
              i0 = Math_floor idx;
              i1 = Math_min (Num (of_int (n - 1))) (jadd i0 (Num 1));
              f = jsub idx i0
          in lerp (jget (map Num cs) i0) (jget (map Num cs) i1) f)
     = lerp (jget (map Num cs) (Math_floor (Num idx))) (jget (map Num cs) (Num (of_int i1)))
         (jsub (Num idx) (Math_floor (Num idx)))"
    by (simp only: Let_def e1 e2 e3)
  have L2: "lerp (jget (map Num cs) (Math_floor (Num idx))) (jget (map Num cs) (Num (of_int i1)))
         (jsub (Num idx) (Math_floor (Num idx)))
     = Num ((idx - of_int \<lfloor>idx\<rfloor>) * (cs ! nat i1 - cs ! nat \<lfloor>idx\<rfloor>) + cs ! nat \<lfloor>idx\<rfloor>)"
    using jget_map_Num [OF f0 i0] jget_map_Num [OF i1] by simp
  have R1: "interp cs (max (min (x / L) 1) 0 * of_int (n - 1)) = interp cs idx"
    by (simp only: idx_def t_def)
  have R2: "interp cs idx
     = (idx - of_int \<lfloor>idx\<rfloor>) * (cs ! nat i1 - cs ! nat \<lfloor>idx\<rfloor>) + cs ! nat \<lfloor>idx\<rfloor>"
    by (simp add: interp_def Let_def e4 i1_def)
  show ?thesis by (simp only: L1 L2 R1 R2)
qed

lemma resistanceUpTo_fin:
  assumes "cumulative p = map Num cs" "length cs = nat (samples p)" "1 \<le> samples p"
    "length_m p = Num L" "L \<noteq> 0"
  shows "resistanceUpTo p (Num x) = Num (interp cs (max (min (x / L) 1) 0 * of_int (samples p - 1)))"
  unfolding resistanceUpTo_def using assms(1,4) query_fin [OF assms(2,3,5), of x] by simp

lemma areaAt_fin:
  assumes "area p = map Num as" "length as = nat (samples p)" "1 \<le> samples p"
    "length_m p = Num L" "L \<noteq> 0"
  shows "areaAt p (Num x) = Num (interp as (max (min (x / L) 1) 0 * of_int (samples p - 1)))"
  unfolding areaAt_def using assms(1,4) query_fin [OF assms(2,3,5), of x] by simp

lemma interp_at_int:
  "0 \<le> k \<Longrightarrow> interp cs (of_int k) = cs ! nat k"
  by (simp add: interp_def)

lemma interp_mono:
  assumes sorted: "\<forall>i j. i \<le> j \<and> j < length cs \<longrightarrow> cs ! i \<le> cs ! j"
    and a: "0 \<le> a" and ab: "a \<le> b" and b: "b \<le> real (length cs) - 1"
  shows "interp cs a \<le> interp cs b"
proof -
  define i where "i = nat \<lfloor>a\<rfloor>"
  define j where "j = nat \<lfloor>b\<rfloor>"
  define n where "n = length cs"
  have fa: "0 \<le> \<lfloor>a\<rfloor>" using a by simp
  have fb: "0 \<le> \<lfloor>b\<rfloor>" using a ab by simp
  have ij: "i \<le> j" unfolding i_def j_def using ab by (simp add: floor_mono nat_mono)
  have "b \<le> real_of_int (int n - 1)" using b by (simp add: n_def)
  then have "\<lfloor>b\<rfloor> \<le> \<lfloor>real_of_int (int n - 1)\<rfloor>" by (rule floor_mono)
  then have "\<lfloor>b\<rfloor> \<le> int n - 1" by (simp only: floor_of_int)
  then have jn: "j < n" using fb by (simp add: j_def) linarith
  define i1 where "i1 = min (n - 1) (i + 1)"
  define j1 where "j1 = min (n - 1) (j + 1)"
  have i1e: "nat (min (int (length cs) - 1) (\<lfloor>a\<rfloor> + 1)) = i1"
    using fa jn ij by (simp add: i1_def i_def n_def min_def) linarith
  have j1e: "nat (min (int (length cs) - 1) (\<lfloor>b\<rfloor> + 1)) = j1"
    using fb jn by (simp add: j1_def j_def n_def min_def) linarith
  define f where "f = a - of_int \<lfloor>a\<rfloor>"
  define g where "g = b - of_int \<lfloor>b\<rfloor>"
  have f01: "0 \<le> f" "f \<le> 1" unfolding f_def by linarith+
  have g01: "0 \<le> g" "g \<le> 1" unfolding g_def by linarith+
  have Ia: "interp cs a = f * (cs ! i1 - cs ! i) + cs ! i"
    by (simp add: interp_def Let_def i1e f_def i_def)
  have Ib: "interp cs b = g * (cs ! j1 - cs ! j) + cs ! j"
    by (simp add: interp_def Let_def j1e g_def j_def)
  have "i \<le> i1" "i1 < length cs" using jn ij by (simp_all add: i1_def n_def)
  then have ii1: "cs ! i \<le> cs ! i1" using sorted by blast
  have "j \<le> j1" "j1 < length cs" using jn by (simp_all add: j1_def n_def)
  then have jj1: "cs ! j \<le> cs ! j1" using sorted by blast
  show ?thesis
  proof (cases "i = j")
    case True
    then have "\<lfloor>a\<rfloor> = \<lfloor>b\<rfloor>" using fa fb unfolding i_def j_def by (simp only: eq_nat_nat_iff)
    then have fg: "f \<le> g" using ab by (simp add: f_def g_def)
    have "i1 = j1" using True by (simp add: i1_def j1_def)
    then have "interp cs b - interp cs a = (g - f) * (cs ! i1 - cs ! i)"
      using True by (simp add: Ia Ib algebra_simps)
    moreover have "0 \<le> (g - f) * (cs ! i1 - cs ! i)"
      using fg ii1 by simp
    ultimately show ?thesis by linarith
  next
    case False
    then have lt: "i + 1 \<le> j" using ij by simp
    then have "i1 = i + 1" using jn by (simp add: i1_def)
    then have "cs ! i1 \<le> cs ! j" using sorted lt jn by (simp add: n_def)
    moreover have "interp cs a \<le> cs ! i1"
    proof -
      have "f * (cs ! i1 - cs ! i) \<le> 1 * (cs ! i1 - cs ! i)"
        using f01 ii1 by (intro mult_right_mono) simp_all
      then show ?thesis by (simp add: Ia)
    qed
    moreover have "cs ! j \<le> interp cs b"
      using g01 jj1 by (simp add: Ib)
    ultimately show ?thesis by linarith
  qed
qed

section \<open>Monotonicity of the cumulative resistance\<close>

lemma cumulative_sorted:
  assumes rec: "\<forall>i. 1 \<le> i \<and> i < n \<longrightarrow> cs ! i = cs ! (i - 1) + d i"
    and pos: "\<forall>i. 1 \<le> i \<and> i < n \<longrightarrow> 0 \<le> d i"
  shows "i \<le> j \<Longrightarrow> j < n \<Longrightarrow> (cs ! i :: real) \<le> cs ! j"
proof (induction j)
  case 0
  then show ?case by simp
next
  case (Suc j)
  show ?case
  proof (cases "i = Suc j")
    case True
    then show ?thesis by simp
  next
    case False
    then have "cs ! i \<le> cs ! j" using Suc by simp
    moreover have "cs ! Suc j = cs ! j + d (Suc j)" "0 \<le> d (Suc j)"
      using rec pos Suc.prems by simp_all
    ultimately show ?thesis by linarith
  qed
qed


text \<open>
  Claim C1. Let \<open>p\<close> be a profile as the constructor leaves it, with at least one
  sample, a positive length \<open>L\<close> and positive finite areas, and let \<open>precompute\<close> run
  with a positive resistivity. Then for all positions \<open>x1 \<le> x2\<close> (in particular for
  \<open>x1 < x2\<close> in \<open>[0, L]\<close>) the interpolated query satisfies
  \<open>resistanceUpTo(x1) <= resistanceUpTo(x2)\<close>, under exact arithmetic.
\<close>

theorem resistanceUpTo_monotone:
  assumes wf: "wf_profile p" and N: "1 \<le> samples p"
    and L: "length_m p = Num L" "0 < L"
    and ar: "area p = map Num as" and pos: "\<forall>a\<in>set as. 0 < a"
    and r: "0 < r" and x: "x1 \<le> x2"
  shows "jle (resistanceUpTo (precompute (Num r) p) (Num x1))
             (resistanceUpTo (precompute (Num r) p) (Num x2))"
proof -
  let ?q = "precompute (Num r) p"
  let ?n = "nat (samples p)"
  let ?d = "\<lambda>i. r * (L / of_int (samples p - 1)) / (as ! i * (1 / 10 ^ 6))"
  have nz: "\<forall>a\<in>set as. a \<noteq> 0" using pos by auto
  from precompute_finite [OF wf N L(1) ar nz, of r]
  obtain cs where cs: "cumulative ?q = map Num cs" "length cs = ?n"
    and rec: "\<forall>i. 1 \<le> i \<and> int i < samples p \<longrightarrow> cs ! i = cs ! (i - 1) + ?d i"
    by blast
  have lenas: "length as = ?n" using wf ar by (simp add: wf_profile_def)
  have rec': "\<forall>i. 1 \<le> i \<and> i < ?n \<longrightarrow> cs ! i = cs ! (i - 1) + ?d i"
  proof (intro allI impI)
    fix i assume "1 \<le> i \<and> i < ?n"
    then have "1 \<le> i \<and> int i < samples p" by linarith
    then show "cs ! i = cs ! (i - 1) + ?d i" using rec by blast
  qed
  have dpos: "\<forall>i. 1 \<le> i \<and> i < ?n \<longrightarrow> 0 \<le> ?d i"
  proof (intro allI impI)
    fix i assume i: "1 \<le> i \<and> i < ?n"
    then have "0 < as ! i" using pos lenas by simp
    moreover have "1 < samples p" using i by linarith
    then have "0 < real_of_int (samples p - 1)" by simp
    ultimately show "0 \<le> ?d i" using r L(2) by simp
  qed
  have sorted: "\<forall>i j. i \<le> j \<and> j < length cs \<longrightarrow> cs ! i \<le> cs ! j"
    using cumulative_sorted [OF rec' dpos] cs(2) by simp
  have q: "length cs = nat (samples ?q)" "1 \<le> samples ?q" "length_m ?q = Num L"
    using cs(2) N L(1) by (simp_all add: precompute_fields)
  have L0: "L \<noteq> 0" using L(2) by simp
  define t where "t = (\<lambda>x. max (min (x / L) 1) (0::real))"
  have R: "resistanceUpTo ?q (Num x) = Num (interp cs (t x * of_int (samples p - 1)))" for x
    using resistanceUpTo_fin [OF cs(1) q L0, of x] by (simp add: t_def precompute_fields)
  have n1: "0 \<le> real_of_int (samples p - 1)" using N by simp
  have "x1 / L \<le> x2 / L" using x L(2) by (simp add: divide_right_mono)
  then have t12: "t x1 \<le> t x2"
    unfolding t_def by (intro max.mono min.mono) simp_all
  have t0: "0 \<le> t x1" and t1: "t x2 \<le> 1" by (simp_all add: t_def)
  have a: "0 \<le> t x1 * of_int (samples p - 1)" using t0 n1 by simp
  have ab: "t x1 * of_int (samples p - 1) \<le> t x2 * of_int (samples p - 1)"
    using t12 n1 by (rule mult_right_mono)
  have "t x2 * of_int (samples p - 1) \<le> 1 * of_int (samples p - 1)"
    using t1 n1 by (rule mult_right_mono)
  then have b: "t x2 * of_int (samples p - 1) \<le> real (length cs) - 1"
    using cs(2) N by simp
  show ?thesis
    using interp_mono [OF sorted a ab b] by (simp add: R)
qed

theorem resistanceUpTo_monotone_witness:
  "wf_profile example_profile \<and> 1 \<le> samples example_profile
   \<and> length_m example_profile = Num 1 \<and> (0::real) < 1
   \<and> area example_profile = map Num [1, 2, 3]
   \<and> (0::real) < 17 / 10 ^ 9 \<and> (1 / 4 :: real) \<le> 3 / 4
   \<and> jle (resistanceUpTo (precompute (Num (17 / 10 ^ 9)) example_profile) (Num (1 / 4)))
           (resistanceUpTo (precompute (Num (17 / 10 ^ 9)) example_profile) (Num (3 / 4)))"
proof -
  have h1: "wf_profile example_profile"
    by (simp add: wf_profile_def example_profile_def)
  have h2: "1 \<le> samples example_profile" by (simp add: example_profile_def)
  have h3: "length_m example_profile = Num 1" by (simp add: example_profile_def)
  have h4: "area example_profile = map Num [1, 2, 3]" by (simp add: example_profile_def)
  have h5: "\<forall>a\<in>set [1, 2, 3 :: real]. 0 < a" by simp
  have h6: "(0::real) < 17 / 10 ^ 9" by simp
  have h7: "(1 / 4 :: real) \<le> 3 / 4" by simp
  show ?thesis
    using resistanceUpTo_monotone [OF h1 h2 h3 zero_less_one h4 h5 h6 h7] h1 h2 h3 h4 h5
    by simp
qed

section \<open>Clamping, the recurrence and idempotence\<close>

text \<open>
  Claim C10. For every profile and every resistivity, a second call of \<open>precompute\<close>
  leaves the cumulative array and \<open>totalR\<close> exactly as the first call left them.
\<close>

theorem precompute_idempotent:
  "cumulative (precompute rho (precompute rho p)) = cumulative (precompute rho p)
   \<and> totalR (precompute rho (precompute rho p)) = totalR (precompute rho p)"
  by (simp add: precompute_twice)

text \<open>
  Claim C6. On a bar of positive length \<open>L\<close>, \<open>areaAt\<close> and \<open>resistanceUpTo\<close> return at
  every position \<open>x\<close> (finite or not, hence at every position outside \<open>[0, L]\<close>) exactly
  the value they return at \<open>x\<close> clamped into \<open>[0, L]\<close>. Neither query can throw: reads
  outside an array give \<open>undefined\<close>, and the model has no error result for them.
\<close>

theorem query_clamped:
  assumes "length_m p = Num L" and "0 < L"
  shows "areaAt p x = areaAt p (constrain x (Num 0) (Num L))
       \<and> resistanceUpTo p x = resistanceUpTo p (constrain x (Num 0) (Num L))"
  using assms by (simp add: areaAt_clamp resistanceUpTo_clamp)

theorem query_clamped_witness:
  "length_m example_profile = Num 1 \<and> (0::real) < 1
   \<and> areaAt example_profile (Num 5) = areaAt example_profile (constrain (Num 5) (Num 0) (Num 1))
   \<and> resistanceUpTo example_profile (Num (- 2))
       = resistanceUpTo example_profile (constrain (Num (- 2)) (Num 0) (Num 1))
   \<and> areaAt example_profile (Num 5) = Num 3
   \<and> constrain (Num 5) (Num 0) (Num 1) = Num 1
   \<and> constrain (Num (- 2)) (Num 0) (Num 1) = Num 0"
proof -
  have h: "length_m example_profile = Num 1" by (simp add: example_profile_def)
  have a: "areaAt example_profile (Num 5) = Num 3"
    by (simp add: areaAt_def example_profile_def jget_def aget_def)
  show ?thesis
    using query_clamped [OF h zero_less_one, of "Num 5"]
      query_clamped [OF h zero_less_one, of "Num (- 2)"] h a
    by simp
qed

lemma totalR_finite:
  assumes "cumulative (precompute rho p) = map Num cs" "length cs = nat (samples p)" "1 \<le> samples p"
  shows "totalR (precompute rho p) = Num (cs ! (nat (samples p) - 1))"
proof -
  have "nat (samples p - 1) = nat (samples p) - 1" using assms(3) by simp
  moreover have "nat (samples p) - 1 < length cs" using assms(2,3) by simp
  ultimately show ?thesis
    using assms by (simp add: precompute_fields(5) aget_def)
qed

text \<open>
  Claim C2. Let \<open>p\<close> be a profile as the constructor leaves it, with \<open>N \<ge> 1\<close> samples, a
  finite length \<open>L \<noteq> 0\<close> and finite non-zero areas \<open>as\<close>, and let \<open>precompute\<close> run with
  a finite resistivity \<open>r\<close>. Then the cumulative array consists of finite numbers \<open>cs\<close>
  with \<open>cs[0] = 0\<close> and \<open>cs[i] = cs[i-1] + r * dx / (as[i] * 1e-6)\<close> for \<open>1 \<le> i < N\<close>, where
  \<open>dx = L / (N - 1)\<close>; \<open>totalR\<close> is \<open>cs[N-1]\<close>; \<open>resistanceUpTo(0)\<close> is \<open>0\<close> and
  \<open>resistanceUpTo(L)\<close> is \<open>totalR\<close>. Arithmetic is exact.
\<close>

theorem precompute_cumulative:
  assumes wf: "wf_profile p" and N: "1 \<le> samples p"
    and L: "length_m p = Num L" "L \<noteq> 0"
    and ar: "area p = map Num as" and nz: "\<forall>a\<in>set as. a \<noteq> 0"
  shows "\<exists>cs. cumulative (precompute (Num r) p) = map Num cs
           \<and> length cs = nat (samples p)
           \<and> cs ! 0 = 0
           \<and> (\<forall>i. 1 \<le> i \<and> int i < samples p \<longrightarrow>
                 cs ! i = cs ! (i - 1) + r * (L / of_int (samples p - 1)) / (as ! i * (1 / 10 ^ 6)))
           \<and> totalR (precompute (Num r) p) = Num (cs ! (nat (samples p) - 1))
           \<and> resistanceUpTo (precompute (Num r) p) (Num 0) = Num 0
           \<and> resistanceUpTo (precompute (Num r) p) (Num L) = totalR (precompute (Num r) p)"
proof -
  let ?q = "precompute (Num r) p"
  from precompute_finite [OF wf N L(1) ar nz, of r]
  obtain cs where cs: "cumulative ?q = map Num cs" "length cs = nat (samples p)" "cs ! 0 = 0"
    and rec: "\<forall>i. 1 \<le> i \<and> int i < samples p \<longrightarrow>
                 cs ! i = cs ! (i - 1) + r * (L / of_int (samples p - 1)) / (as ! i * (1 / 10 ^ 6))"
    by blast
  have tot: "totalR ?q = Num (cs ! (nat (samples p) - 1))"
    using cs(1,2) N by (rule totalR_finite)
  have q: "length cs = nat (samples ?q)" "1 \<le> samples ?q" "length_m ?q = Num L"
    using cs(2) N L(1) by (simp_all add: precompute_fields)
  have "resistanceUpTo ?q (Num 0) = Num (interp cs (of_int 0))"
    using resistanceUpTo_fin [OF cs(1) q L(2), of 0] by simp
  then have r0: "resistanceUpTo ?q (Num 0) = Num 0"
    using cs(3) by (simp only: interp_at_int [OF order_refl]) simp
  have n1: "0 \<le> samples p - 1" using N by simp
  have "resistanceUpTo ?q (Num L) = Num (interp cs (of_int (samples p - 1)))"
    using resistanceUpTo_fin [OF cs(1) q L(2), of L] L(2) by (simp add: precompute_fields)
  then have rL: "resistanceUpTo ?q (Num L) = totalR ?q"
    using N by (simp only: interp_at_int [OF n1] tot) (simp add: nat_diff_distrib)
  show ?thesis using cs rec tot r0 rL by blast
qed

theorem precompute_cumulative_witness:
  "wf_profile example_profile \<and> 1 \<le> samples example_profile
   \<and> length_m example_profile = Num 1 \<and> (1::real) \<noteq> 0
   \<and> area example_profile = map Num [1, 2, 3]
   \<and> (\<exists>cs. cumulative (precompute (Num (17 / 10 ^ 9)) example_profile) = map Num cs
           \<and> length cs = nat (samples example_profile)
           \<and> cs ! 0 = 0
           \<and> (\<forall>i. 1 \<le> i \<and> int i < samples example_profile \<longrightarrow>
                 cs ! i = cs ! (i - 1)
                   + 17 / 10 ^ 9 * (1 / of_int (samples example_profile - 1))
                       / ([1, 2, 3] ! i * (1 / 10 ^ 6)))
           \<and> totalR (precompute (Num (17 / 10 ^ 9)) example_profile)
               = Num (cs ! (nat (samples example_profile) - 1))
           \<and> resistanceUpTo (precompute (Num (17 / 10 ^ 9)) example_profile) (Num 0) = Num 0
           \<and> resistanceUpTo (precompute (Num (17 / 10 ^ 9)) example_profile) (Num 1)
               = totalR (precompute (Num (17 / 10 ^ 9)) example_profile))"
proof -
  have h1: "wf_profile example_profile"
    by (simp add: wf_profile_def example_profile_def)
  have h2: "1 \<le> samples example_profile" by (simp add: example_profile_def)
  have h3: "length_m example_profile = Num 1" by (simp add: example_profile_def)
  have h4: "(1::real) \<noteq> 0" by simp
  have h5: "area example_profile = map Num [1, 2, 3]" by (simp add: example_profile_def)
  have h6: "\<forall>a\<in>set [1, 2, 3 :: real]. a \<noteq> 0" by simp
  show ?thesis
    using precompute_cumulative [OF h1 h2 h3 h4 h5 h6, of "17 / 10 ^ 9"] h1 h2 h3 h5
    by simp
qed

lemma example_cumulative:
  "cumulative (precompute (Num (17 / 1000000000)) example_profile)
     = [Num 0, Num (17 / 4000), Num (17 / 2400)]"
  by (simp add: precompute_def precompute_loop.simps example_profile_def aset_def aget_def Let_def)

section \<open>Automatic scans\<close>

lemma scan_calls_append:
  "scan_calls fn (xs @ ys) s =
     (fst (scan_calls fn xs s) @ fst (scan_calls fn ys (snd (scan_calls fn xs s))),
      snd (scan_calls fn ys (snd (scan_calls fn xs s))))"
  by (induction xs arbitrary: s) (simp_all add: Let_def case_prod_unfold)

lemma scan_calls_positions: "map sample_x (fst (scan_calls fn xs s)) = xs"
  by (induction xs arbitrary: s) (simp_all add: Let_def case_prod_unfold)

lemma autoScan_loop_eq:
  "autoScan_loop fn step count i lg s =
     (lg\<lparr>data := data lg @ fst (scan_calls fn (map (\<lambda>k. jmul (Num (real k)) step) [i..<nat count]) s)\<rparr>,
      snd (scan_calls fn (map (\<lambda>k. jmul (Num (real k)) step) [i..<nat count]) s))"
proof (induction fn step count i lg s rule: autoScan_loop.induct)
  case (1 fn step count i lg s)
  show ?case
  proof (cases "int i < count")
    case False
    then have "[i..<nat count] = []" by simp
    with False show ?thesis by (subst autoScan_loop.simps) simp
  next
    case True
    then have u: "[i..<nat count] = i # [Suc i..<nat count]"
      by (simp add: upt_conv_Cons)
    obtain v s' where f: "fn (jmul (Num (real i)) step) s = (v, s')"
      by (cases "fn (jmul (Num (real i)) step) s")
    have ih: "autoScan_loop fn step count (Suc i) (add (jmul (Num (real i)) step) v lg) s' =
      ((add (jmul (Num (real i)) step) v lg)\<lparr>data := data (add (jmul (Num (real i)) step) v lg)
          @ fst (scan_calls fn (map (\<lambda>k. jmul (Num (real k)) step) [Suc i..<nat count]) s')\<rparr>,
       snd (scan_calls fn (map (\<lambda>k. jmul (Num (real k)) step) [Suc i..<nat count]) s'))"
      using "1.IH" [OF True refl f [symmetric] refl] .
    have "autoScan_loop fn step count i lg s
        = autoScan_loop fn step count (Suc i) (add (jmul (Num (real i)) step) v lg) s'"
      using True f by (subst autoScan_loop.simps) simp
    then show ?thesis
      unfolding ih u using f by (simp add: add_def Let_def split: prod.splits)
  qed
qed

lemma scan_positions_step:
  "2 \<le> count \<Longrightarrow>
   map (\<lambda>k. jmul (Num (real k)) (jdiv (Num L) (Num (of_int (count - 1))))) [0..<nat count]
     = scan_positions L count"
  by (simp add: scan_positions_def)

lemma autoScan_eq:
  assumes "2 \<le> count"
  shows "autoScan (Num L) fn (Some count) lg s =
     (lg\<lparr>data := fst (scan_calls fn (scan_positions L count) s)\<rparr>,
      snd (scan_calls fn (scan_positions L count) s))"
proof -
  have "autoScan (Num L) fn (Some count) lg s
      = autoScan_loop fn (jdiv (Num L) (Num (of_int (count - 1)))) count 0 (clear lg) s"
    by (simp only: autoScan_def Let_def option.case)
  then show ?thesis
    unfolding autoScan_loop_eq scan_positions_step [OF assms] by (simp add: clear_def)
qed

lemma scan_positions_nth:
  "i < nat count \<Longrightarrow> scan_positions L count ! i = Num (real i * L / of_int (count - 1))"
  by (simp add: scan_positions_def)

lemma scan_positions_ends:
  assumes "2 \<le> count"
  shows "hd (scan_positions L count) = Num 0" "last (scan_positions L count) = Num L"
proof -
  have ne: "[0..<nat count] \<noteq> []" using assms by simp
  show "hd (scan_positions L count) = Num 0"
    using ne by (simp add: scan_positions_def hd_map upt_conv_Cons)
  have "last [0..<nat count] = nat count - 1"
    using assms by simp
  moreover have "real (nat count - 1) = of_int (count - 1)"
    using assms by simp
  ultimately show "last (scan_positions L count) = Num L"
    using ne assms by (simp add: scan_positions_def last_map)
qed

text \<open>
  Claim C8. For \<open>count \<ge> 2\<close> and a finite length \<open>L\<close>, \<open>autoScan(L, fn, count)\<close> replaces
  whatever the log held by the samples that calling \<open>fn\<close> once on each of the positions
  \<open>i * L / (count - 1)\<close>, \<open>i = 0, \<dots>, count - 1\<close>, in this order, produces, and leaves the
  callback's state as these calls leave it. There are \<open>count\<close> positions, the first is
  \<open>0\<close>, the last is \<open>L\<close>, and for \<open>L > 0\<close> they increase strictly. Arithmetic is exact.
\<close>

theorem autoScan_samples:
  assumes "2 \<le> count"
  shows "autoScan (Num L) fn (Some count) lg s =
           (lg\<lparr>data := fst (scan_calls fn (scan_positions L count) s)\<rparr>,
            snd (scan_calls fn (scan_positions L count) s))
       \<and> map sample_x (data (fst (autoScan (Num L) fn (Some count) lg s))) = scan_positions L count
       \<and> length (data (fst (autoScan (Num L) fn (Some count) lg s))) = nat count
       \<and> (\<forall>i < nat count. scan_positions L count ! i = Num (real i * L / of_int (count - 1)))
       \<and> hd (scan_positions L count) = Num 0
       \<and> last (scan_positions L count) = Num L
       \<and> (0 < L \<longrightarrow> (\<forall>i j. i < j \<and> j < nat count \<longrightarrow>
             jlt (scan_positions L count ! i) (scan_positions L count ! j)))"
proof -
  have 1: "autoScan (Num L) fn (Some count) lg s =
           (lg\<lparr>data := fst (scan_calls fn (scan_positions L count) s)\<rparr>,
            snd (scan_calls fn (scan_positions L count) s))"
    using assms by (rule autoScan_eq)
  have 2: "map sample_x (data (fst (autoScan (Num L) fn (Some count) lg s))) = scan_positions L count"
    by (simp add: 1 scan_calls_positions)
  have "length (map sample_x (data (fst (autoScan (Num L) fn (Some count) lg s)))) = nat count"
    unfolding 2 by (simp add: scan_positions_def)
  then have 3: "length (data (fst (autoScan (Num L) fn (Some count) lg s))) = nat count"
    by simp
  have 4: "\<forall>i < nat count. scan_positions L count ! i = Num (real i * L / of_int (count - 1))"
    by (simp add: scan_positions_nth)
  have 5: "jlt (scan_positions L count ! i) (scan_positions L count ! j)"
    if "0 < L" "i < j \<and> j < nat count" for i j
  proof -
    have c: "0 < real_of_int (count - 1)" using assms by simp
    have "real i * L < real j * L" using that by simp
    then have "real i * L / of_int (count - 1) < real j * L / of_int (count - 1)"
      using c by (simp add: divide_strict_right_mono)
    moreover have "i < nat count" "j < nat count" using that by simp_all
    ultimately show ?thesis by (simp only: scan_positions_nth jlt_Num)
  qed
  show ?thesis
    using 1 2 3 4 5 scan_positions_ends [OF assms, of L] by blast
qed

theorem autoScan_samples_witness:
  "(2::int) \<le> 24
   \<and> length (data (fst (autoScan (Num 1) (\<lambda>x n. (x, Suc n)) (Some 24)
        \<lparr> data = [\<lparr> sample_x = Num 7, sample_v = Num 7 \<rparr>] \<rparr> (0::nat)))) = 24
   \<and> map sample_x (data (fst (autoScan (Num 1) (\<lambda>x n. (x, Suc n)) (Some 24)
        \<lparr> data = [\<lparr> sample_x = Num 7, sample_v = Num 7 \<rparr>] \<rparr> (0::nat)))) = scan_positions 1 24
   \<and> hd (scan_positions 1 24) = Num 0 \<and> last (scan_positions 1 24) = Num 1
   \<and> jlt (scan_positions 1 24 ! 0) (scan_positions 1 24 ! 23)"
proof -
  have h: "(2::int) \<le> 24" by simp
  note T = autoScan_samples [OF h, of 1 "\<lambda>x n. (x, Suc n)"
        "\<lparr> data = [\<lparr> sample_x = Num 7, sample_v = Num 7 \<rparr>] \<rparr>" "0::nat"]
  have n: "nat 24 = (24::nat)" by simp
  have c1: "length (data (fst (autoScan (Num 1) (\<lambda>x n. (x, Suc n)) (Some 24)
        \<lparr> data = [\<lparr> sample_x = Num 7, sample_v = Num 7 \<rparr>] \<rparr> (0::nat)))) = 24"
    using T unfolding n by blast
  have c2: "map sample_x (data (fst (autoScan (Num 1) (\<lambda>x n. (x, Suc n)) (Some 24)
        \<lparr> data = [\<lparr> sample_x = Num 7, sample_v = Num 7 \<rparr>] \<rparr> (0::nat)))) = scan_positions 1 24"
    using T by blast
  have c3: "hd (scan_positions 1 24) = Num 0" "last (scan_positions 1 24) = Num 1"
    using T by blast+
  have "(0::nat) < 23 \<and> (23::nat) < 24" by simp
  then have c4: "jlt (scan_positions 1 24 ! 0) (scan_positions 1 24 ! 23)"
    using T unfolding n by (metis zero_less_one)
  show ?thesis using h c1 c2 c3 c4 by blast
qed

lemma autoScan_calls_counted:
  "snd (autoScan (Num 1) (\<lambda>x n. (x, Suc n)) (Some 24) lg (0::nat)) = 24"
proof -
  have "snd (scan_calls (\<lambda>x n. (x, Suc n)) xs n) = n + length xs" for xs and n :: nat
    by (induction xs arbitrary: n) (simp_all add: case_prod_unfold)
  then show ?thesis
    by (simp add: autoScan_eq scan_positions_def)
qed

section \<open>Measurements with a fixed noise level\<close>

text \<open>
  Claim C7. \<open>measureVoltage(x)\<close> consumes one draw \<open>z\<close> of the noise source and returns
  \<open>I * resistanceUpTo(x) + sigma * z\<close>; it returns nothing else and changes nothing but
  the noise source. With \<open>sigma = 0\<close> or \<open>z = 0\<close> the value is exactly
  \<open>I * resistanceUpTo(x)\<close>, and the value depends on the noise source through \<open>z\<close> only.
\<close>

theorem measureVoltage_value:
  assumes "noiseStd e = Num sigma" and "draw g = (z, g')"
  shows "measureVoltage draw e x g
           = (jadd (jmul (currentA e) (resistanceUpTo (areaProfile e) x)) (Num (sigma * z)), g')
       \<and> (sigma = 0 \<or> z = 0 \<longrightarrow>
            fst (measureVoltage draw e x g) = jmul (currentA e) (resistanceUpTo (areaProfile e) x))
       \<and> (\<forall>I R. currentA e = Num I \<and> resistanceUpTo (areaProfile e) x = Num R \<longrightarrow>
            fst (measureVoltage draw e x g) = Num (I * R + sigma * z))"
  using assms by (auto simp: measureVoltage_def Let_def)

theorem measureVoltage_value_witness:
  "noiseStd example_experiment = Num 0
   \<and> fixed_draw 5 0 = (5, 1)
   \<and> measureVoltage (fixed_draw 5) example_experiment (Num (1 / 2)) 0
       = (jmul (currentA example_experiment)
            (resistanceUpTo (areaProfile example_experiment) (Num (1 / 2))), 1)
   \<and> resistanceUpTo (areaProfile example_experiment) (Num (1 / 2)) = Num (17 / 4000)
   \<and> fst (measureVoltage (fixed_draw 5) example_experiment (Num (1 / 2)) 0) = Num (17 / 16000)"
proof -
  have h1: "noiseStd example_experiment = Num 0" by (simp add: example_experiment_def)
  have h2: "fixed_draw 5 0 = (5, 1)" by (simp add: fixed_draw_def)
  note T = measureVoltage_value [where draw = "fixed_draw 5" and g = 0 and x = "Num (1 / 2)", OF h1 h2]
  have example_fields: "samples example_profile = 3" "length_m example_profile = Num 1"
    by (simp_all add: example_profile_def)
  have R: "resistanceUpTo (areaProfile example_experiment) (Num (1 / 2)) = Num (17 / 4000)"
    by (simp add: example_experiment_def resistanceUpTo_def precompute_fields example_cumulative
          example_fields jget_def aget_def Let_def)
  have I: "currentA example_experiment = Num (1 / 4)" by (simp add: example_experiment_def)
  have v: "fst (measureVoltage (fixed_draw 5) example_experiment (Num (1 / 2)) 0) = Num (17 / 16000)"
    using T I R by simp
  show ?thesis using T h1 h2 R v by simp
qed

section \<open>Readings with Johnson noise\<close>

lemma ph_loop_step:
  "int i < ph_samples e \<Longrightarrow>
   ph_cumulative_loop i e =
   ph_cumulative_loop (Suc i)
     (e\<lparr>ph_cumulative := aset (ph_cumulative e) i (jadd (aget (ph_cumulative e) (int i - 1)) (ph_dR e i))\<rparr>)"
  by (subst ph_cumulative_loop.simps) (simp add: ph_dR_def)

lemma ph_loop_stop:
  "\<not> int i < ph_samples e \<Longrightarrow> ph_cumulative_loop i e = e"
  by (subst ph_cumulative_loop.simps) simp

lemma ph_dR_update [simp]: "ph_dR (e\<lparr>ph_cumulative := c\<rparr>) j = ph_dR e j"
  by (simp add: ph_dR_def ph_areaAt_def ph_radiusAt_def)

lemma ph_loop_frame:
  "ph_cumulative_loop i e = e\<lparr>ph_cumulative := ph_cumulative (ph_cumulative_loop i e)\<rparr>"
proof (induction i e rule: ph_cumulative_loop.induct)
  case (1 i e)
  show ?case
  proof (cases "int i < ph_samples e")
    case True
    let ?e' = "e\<lparr>ph_cumulative := aset (ph_cumulative e) i (jadd (aget (ph_cumulative e) (int i - 1)) (ph_dR e i))\<rparr>"
    have ih: "ph_cumulative_loop (Suc i) ?e' = ?e'\<lparr>ph_cumulative := ph_cumulative (ph_cumulative_loop (Suc i) ?e')\<rparr>"
      using "1.IH" [OF True refl refl] by (simp add: ph_dR_def)
    have "ph_cumulative_loop i e = ph_cumulative_loop (Suc i) ?e'"
      using True by (rule ph_loop_step)
    then show ?thesis using ih by simp
  next
    case False
    then show ?thesis by (simp add: ph_loop_stop)
  qed
qed

lemma ph_loop_cum:
  assumes "1 \<le> i" "i \<le> length (ph_cumulative e)"
  shows "length (ph_cumulative (ph_cumulative_loop i e)) = max (length (ph_cumulative e)) (nat (ph_samples e))
    \<and> (\<forall>j<i. ph_cumulative (ph_cumulative_loop i e) ! j = ph_cumulative e ! j)
    \<and> (\<forall>j. i \<le> j \<and> int j < ph_samples e \<longrightarrow>
          ph_cumulative (ph_cumulative_loop i e) ! j
            = jadd (ph_cumulative (ph_cumulative_loop i e) ! (j - 1)) (ph_dR e j))"
  using assms
proof (induction i e rule: ph_cumulative_loop.induct)
  case (1 i e)
  show ?case
  proof (cases "int i < ph_samples e")
    case False
    with "1.prems" show ?thesis by (auto simp: ph_loop_stop)
  next
    case True
    let ?v = "jadd (aget (ph_cumulative e) (int i - 1)) (ph_dR e i)"
    let ?e' = "e\<lparr>ph_cumulative := aset (ph_cumulative e) i ?v\<rparr>"
    let ?c = "ph_cumulative (ph_cumulative_loop (Suc i) ?e')"
    have eq: "ph_cumulative_loop i e = ph_cumulative_loop (Suc i) ?e'"
      using True by (rule ph_loop_step)
    have len': "length (ph_cumulative ?e') = max (length (ph_cumulative e)) (Suc i)"
      by (simp add: length_aset)
    have ih: "length ?c = max (length (ph_cumulative ?e')) (nat (ph_samples ?e'))
      \<and> (\<forall>j<Suc i. ?c ! j = ph_cumulative ?e' ! j)
      \<and> (\<forall>j. Suc i \<le> j \<and> int j < ph_samples ?e' \<longrightarrow> ?c ! j = jadd (?c ! (j - 1)) (ph_dR ?e' j))"
      using "1.IH" [OF True refl refl] len' by (simp add: ph_dR_def)
    have prev: "aget (ph_cumulative e) (int i - 1) = ph_cumulative e ! (i - 1)"
      using "1.prems" aget_nth [of "i - 1" "ph_cumulative e"] by simp
    have c1: "length ?c = max (length (ph_cumulative e)) (nat (ph_samples e))"
      using ih True len' by simp
    have c2: "\<forall>j<i. ?c ! j = ph_cumulative e ! j"
      using ih "1.prems" by (simp add: nth_aset_other)
    have ci: "?c ! i = ?v"
      using ih by (simp add: nth_aset_same)
    have c3: "\<forall>j. i \<le> j \<and> int j < ph_samples e \<longrightarrow> ?c ! j = jadd (?c ! (j - 1)) (ph_dR e j)"
    proof (intro allI impI)
      fix j assume j: "i \<le> j \<and> int j < ph_samples e"
      show "?c ! j = jadd (?c ! (j - 1)) (ph_dR e j)"
      proof (cases "j = i")
        case True
        have "?c ! (i - 1) = ph_cumulative e ! (i - 1)"
          using c2 "1.prems" by simp
        then show ?thesis using True ci prev by simp
      next
        case False
        then show ?thesis using ih j by simp
      qed
    qed
    show ?thesis unfolding eq using c1 c2 c3 by blast
  qed
qed



lemma ph_areaAt_Num:
  assumes "ph_r0 e = Num r0" "ph_ell e = Num ell" "ell \<noteq> 0"
  shows "ph_areaAt e (Num x) = Num (pi * (r0 * exp (- x / ell)) ^ 2)"
  using assms by (simp add: ph_areaAt_def ph_radiusAt_def)

lemma ph_dR_Num:
  assumes "ph_r0 e = Num r0" "r0 \<noteq> 0" "ph_ell e = Num ell" "ell \<noteq> 0"
    "ph_rho e = Num rh" "ph_dx e = Num d"
  shows "ph_dR e i = Num (rh * d / (pi * (r0 * exp (- (real i * d) / ell)) ^ 2))"
proof -
  have "pi * (r0 * exp (- (real i * d) / ell)) ^ 2 \<noteq> 0"
    using assms(2) by simp
  then show ?thesis
    unfolding ph_dR_def using assms ph_areaAt_Num [OF assms(1,3,4), of "real i * d"]
    by (simp)
qed

lemma PhysExperiment_new_eq: "PhysExperiment_new entropy = Inr (ph_constructed entropy)"
  by (simp add: PhysExperiment_new_def new_Array_fill_def ph_constructed_def)

lemma ph_constructed_frame:
  "ph_constructed entropy = (ph_fields entropy (replicate 512 (Num 0)))\<lparr>ph_cumulative := ph_cumulative (ph_constructed entropy)\<rparr>"
  unfolding ph_constructed_def by (rule ph_loop_frame)

lemma ph_constructed_fields:
  "ph_L (ph_constructed entropy) = Num (1 / 100)"
  "ph_samples (ph_constructed entropy) = 512"
  "ph_dx (ph_constructed entropy) = Num (1 / 51100)"
  "ph_r0 (ph_constructed entropy) = Num (1 / 2500)"
  "ph_ell (ph_constructed entropy) = Num (1 / 125)"
  "ph_rho (ph_constructed entropy) = Num (1 / 10000)"
  "ph_currentA (ph_constructed entropy) = Num (1 / 4)"
  "ph_k_b (ph_constructed entropy) = Num (1.380649 / 10 ^ 23)"
  "ph_tempK (ph_constructed entropy) = Num 300"
  "ph_noiseBW (ph_constructed entropy) = Num (9 * 10 ^ 9)"
  "ph_readings (ph_constructed entropy) = []"
  by (subst ph_constructed_frame, simp add: ph_fields_def)+


lemma ph_constructed_cum:
  "length (ph_cumulative (ph_constructed entropy)) = 512"
  "ph_cumulative (ph_constructed entropy) ! 0 = Num 0"
  "1 \<le> j \<Longrightarrow> j < 512 \<Longrightarrow>
     ph_cumulative (ph_constructed entropy) ! j
       = jadd (ph_cumulative (ph_constructed entropy) ! (j - 1))
           (Num (1 / 10000 * (1 / 51100)
                  / (pi * (1 / 2500 * exp (- (real j * (1 / 51100)) / (1 / 125))) ^ 2)))"
proof -
  let ?f = "ph_fields entropy (replicate 512 (Num 0))"
  have l: "1 \<le> length (ph_cumulative ?f)" by (simp add: ph_fields_def)
  note L = ph_loop_cum [OF order_refl l]
  have s: "ph_samples ?f = 512" by (simp add: ph_fields_def)
  show "length (ph_cumulative (ph_constructed entropy)) = 512"
    using L by (simp add: ph_constructed_def s) (simp add: ph_fields_def)
  have "ph_cumulative (ph_constructed entropy) ! 0 = ph_cumulative ?f ! 0"
    using L by (simp add: ph_constructed_def)
  then show "ph_cumulative (ph_constructed entropy) ! 0 = Num 0"
    by (simp add: ph_fields_def)
  have d: "ph_dR ?f j = Num (1 / 10000 * (1 / 51100)
                  / (pi * (1 / 2500 * exp (- (real j * (1 / 51100)) / (1 / 125))) ^ 2))"
    by (rule ph_dR_Num) (simp_all add: ph_fields_def)
  show "ph_cumulative (ph_constructed entropy) ! j
       = jadd (ph_cumulative (ph_constructed entropy) ! (j - 1))
           (Num (1 / 10000 * (1 / 51100)
                  / (pi * (1 / 2500 * exp (- (real j * (1 / 51100)) / (1 / 125))) ^ 2)))"
    if "1 \<le> j" "j < 512"
  proof -
    have "int j < ph_samples ?f" using that s by simp
    then show ?thesis
      using L that(1) unfolding ph_constructed_def d [symmetric] by blast
  qed
qed

lemma ph_constructed_finite:
  "j < 512 \<Longrightarrow> \<exists>c\<ge>0. ph_cumulative (ph_constructed entropy) ! j = Num c"
proof (induction j)
  case 0
  show ?case by (simp add: ph_constructed_cum(2))
next
  case (Suc j)
  then obtain c where c: "0 \<le> c" "ph_cumulative (ph_constructed entropy) ! j = Num c"
    by auto
  let ?d = "1 / 10000 * (1 / 51100)
                  / (pi * (1 / 2500 * exp (- (real (Suc j) * (1 / 51100)) / (1 / 125))) ^ 2)"
  have "0 \<le> ?d" by simp
  moreover have "ph_cumulative (ph_constructed entropy) ! Suc j = Num (c + ?d)"
    using ph_constructed_cum(3) [of "Suc j" entropy] Suc.prems c(2) by simp
  ultimately show ?case using c(1) by (intro exI [of _ "c + ?d"]) simp
qed

lemma ph_constructed_wellformed:
  "\<exists>cs. ph_cumulative (ph_constructed entropy) = map Num cs \<and> length cs = 512
     \<and> (\<forall>c\<in>set cs. 0 \<le> c)"
proof -
  let ?C = "ph_cumulative (ph_constructed entropy)"
  have n: "\<forall>j<512. ?C ! j = Num (fin (?C ! j)) \<and> 0 \<le> fin (?C ! j)"
    using ph_constructed_finite [of _ entropy] by fastforce
  have "?C = map Num (map fin ?C)"
    by (rule nth_equalityI) (use n ph_constructed_cum(1) in auto)
  moreover have "\<forall>c\<in>set (map fin ?C). 0 \<le> c"
    using n ph_constructed_cum(1) [of entropy] by (auto simp: in_set_conv_nth)
  ultimately show ?thesis
    using ph_constructed_cum(1) [of entropy] by (intro exI [of _ "map fin ?C"]) simp
qed

lemma ph_lookup:
  assumes c: "ph_cumulative e = map Num cs" "cs \<noteq> []"
    and d: "ph_dx e = Num d" "d \<noteq> 0" and x: "ph_probeX e = Num x"
  shows "jget (ph_cumulative e)
           (constrain (Math_floor (jdiv (ph_probeX e) (ph_dx e))) (Num 0)
              (Num (real (length (ph_cumulative e)) - 1)))
         = Num (cs ! nat (max (min \<lfloor>x / d\<rfloor> (int (length cs) - 1)) 0))"
proof -
  define m where "m = max (min \<lfloor>x / d\<rfloor> (int (length cs) - 1)) 0"
  have l: "0 < length cs" using c(2) by simp
  have m: "0 \<le> m" "m < int (length cs)" using l by (simp_all add: m_def)
  have "constrain (Math_floor (jdiv (Num x) (Num d))) (Num 0) (Num (real (length cs) - 1))
      = Num (of_int m)"
    using d(2) l by (simp add: m_def)
  then show ?thesis
    using jget_map_Num [OF m] by (simp add: c(1) d(1) x m_def)
qed

text \<open>
  Claim C4, as the code has it. In the Johnson-noise experiment with a finite cumulative
  array of non-negative entries, a finite non-zero \<open>dx\<close> and non-negative \<open>k_b\<close>, \<open>T\<close>, \<open>BW\<close>,
  pressing Add Reading at probe position \<open>x\<close> with the normal draw \<open>z\<close> appends the
  reading \<open>(x, I * R + totalStd * z)\<close>, where \<open>R\<close> is the entry of the cumulative array
  at index \<open>floor(x / dx)\<close> clamped into the array (a step lookup, with no interpolation),
  \<open>johnsonStd = sqrt(4 * k_b * T * R * BW)\<close> and
  \<open>totalStd = sqrt(johnsonStd^2 + 0.003^2)\<close>.
\<close>

theorem ph_addReading_value:
  assumes c: "ph_cumulative e = map Num cs" "cs \<noteq> []" "\<forall>c\<in>set cs. 0 \<le> c"
    and d: "ph_dx e = Num d" "d \<noteq> 0" and x: "ph_probeX e = Num x"
    and I: "ph_currentA e = Num I"
    and k: "ph_k_b e = Num k" "0 \<le> k" and T: "ph_tempK e = Num T" "0 \<le> T"
    and B: "ph_noiseBW e = Num B" "0 \<le> B"
    and R: "R = cs ! nat (max (min \<lfloor>x / d\<rfloor> (int (length cs) - 1)) 0)"
  shows "ph_readings (ph_addReading z e)
           = ph_readings e
               @ [(Num x, Num (I * R
                    + sqrt (sqrt (4 * k * T * R * B) * sqrt (4 * k * T * R * B) + 0.003 * 0.003) * z))]"
proof -
  have l: "0 < length cs" using c(2) by simp
  have "max (min \<lfloor>x / d\<rfloor> (int (length cs) - 1)) 0 < int (length cs)"
    using l by (simp add: max_def min_def)
  then have "nat (max (min \<lfloor>x / d\<rfloor> (int (length cs) - 1)) 0) < length cs"
    using l by linarith
  then have R0: "0 \<le> R" using c(3) R by simp
  have q: "0 \<le> 4 * k * T * R * B" using k(2) T(2) B(2) R0 by simp
  have res: "jget (ph_cumulative e)
           (constrain (Math_floor (jdiv (ph_probeX e) (ph_dx e))) (Num 0)
              (Num (real (length (ph_cumulative e)) - 1))) = Num R"
    unfolding R using c(1,2) d x by (rule ph_lookup)
  have j: "Math_sqrt (jmul (jmul (jmul (jmul (Num 4) (ph_k_b e)) (ph_tempK e)) (Num R)) (ph_noiseBW e))
      = Num (sqrt (4 * k * T * R * B))"
    using q by (simp add: k(1) T(1) B(1))
  have t: "Math_sqrt (jadd (jmul (Num (sqrt (4 * k * T * R * B))) (Num (sqrt (4 * k * T * R * B))))
             (jmul (Num 0.003) (Num 0.003)))
      = Num (sqrt (sqrt (4 * k * T * R * B) * sqrt (4 * k * T * R * B) + 0.003 * 0.003))"
    by simp
  show ?thesis
    unfolding ph_addReading_def Let_def res j t by (simp add: x I)
qed

theorem ph_addReading_value_witness:
  "ph_cumulative ph_small_state = map Num [0, 4, 9] \<and> [0, 4, 9 :: real] \<noteq> []
   \<and> ph_dx ph_small_state = Num (1 / 2) \<and> (1 / 2 :: real) \<noteq> 0
   \<and> ph_probeX ph_small_state = Num (3 / 4) \<and> ph_currentA ph_small_state = Num 2
   \<and> ph_k_b ph_small_state = Num 1 \<and> ph_tempK ph_small_state = Num 1
   \<and> ph_noiseBW ph_small_state = Num 1
   \<and> (4::real) = [0, 4, 9] ! nat (max (min \<lfloor>(3 / 4 :: real) / (1 / 2)\<rfloor> (int (length [0, 4, 9 :: real]) - 1)) 0)
   \<and> ph_readings (ph_addReading 0 ph_small_state) = [(Num (3 / 4), Num 8)]"
proof -
  have h1: "ph_cumulative ph_small_state = map Num [0, 4, 9]" by (simp add: ph_small_state_def)
  have h2: "[0, 4, 9 :: real] \<noteq> []" by simp
  have h3: "\<forall>c\<in>set [0, 4, 9 :: real]. 0 \<le> c" by simp
  have h4: "ph_dx ph_small_state = Num (1 / 2)" by (simp add: ph_small_state_def)
  have h5: "(1 / 2 :: real) \<noteq> 0" by simp
  have h6: "ph_probeX ph_small_state = Num (3 / 4)" by (simp add: ph_small_state_def)
  have h7: "ph_currentA ph_small_state = Num 2" by (simp add: ph_small_state_def)
  have h8: "ph_k_b ph_small_state = Num 1" "ph_tempK ph_small_state = Num 1"
    "ph_noiseBW ph_small_state = Num 1" by (simp_all add: ph_small_state_def)
  have h9: "(4::real) = [0, 4, 9] ! nat (max (min \<lfloor>(3 / 4 :: real) / (1 / 2)\<rfloor> (int (length [0, 4, 9 :: real]) - 1)) 0)"
    by simp
  have r: "ph_readings ph_small_state = []" by (simp add: ph_small_state_def)
  have "ph_readings (ph_addReading 0 ph_small_state) = [(Num (3 / 4), Num 8)]"
    using ph_addReading_value [OF h1 h2 h3 h4 h5 h6 h7 h8(1) zero_le_one h8(2) zero_le_one
        h8(3) zero_le_one h9, of 0] r
    by simp
  then show ?thesis using h1 h4 h6 h7 h8 h9 by simp
qed

lemma ph_probe_state_fields:
  "ph_probeX ph_probe_state = Num (1 / 102200)"
  "ph_dx ph_probe_state = Num (1 / 51100)"
  "ph_L ph_probe_state = Num (1 / 100)"
  "ph_samples ph_probe_state = 512"
  "ph_currentA ph_probe_state = Num (1 / 4)"
  "ph_k_b ph_probe_state = Num (1.380649 / 10 ^ 23)"
  "ph_tempK ph_probe_state = Num 300"
  "ph_noiseBW ph_probe_state = Num (9 * 10 ^ 9)"
  "ph_readings ph_probe_state = []"
  "ph_cumulative ph_probe_state = ph_cumulative (ph_constructed 0)"
  by (simp_all add: ph_probe_state_def ph_constructed_fields)

lemma ph_probe_state_first:
  "jget (ph_cumulative ph_probe_state) (Num 0) = Num 0"
  "\<exists>d>0. jget (ph_cumulative ph_probe_state) (Num 1) = Num d"
proof -
  show "jget (ph_cumulative ph_probe_state) (Num 0) = Num 0"
    by (simp add: jget_def aget_def ph_probe_state_fields ph_constructed_cum)
  let ?d = "1 / 10000 * (1 / 51100)
                  / (pi * (1 / 2500 * exp (- (real 1 * (1 / 51100)) / (1 / 125))) ^ 2)"
  have "ph_cumulative (ph_constructed 0) ! 1 = jadd (ph_cumulative (ph_constructed 0) ! (1 - 1)) (Num ?d)"
    by (rule ph_constructed_cum(3)) simp_all
  then have "ph_cumulative (ph_constructed 0) ! 1 = Num ?d"
    by (simp add: ph_constructed_cum(2))
  moreover have "0 < ?d" by simp
  ultimately have "\<exists>d>0. ph_cumulative (ph_constructed 0) ! 1 = Num d" by blast
  then show "\<exists>d>0. jget (ph_cumulative ph_probe_state) (Num 1) = Num d"
    by (simp add: jget_def aget_def ph_probe_state_fields ph_constructed_cum(1))
qed

lemma ph_probe_state_code:
  "ph_readings (ph_addReading 0 ph_probe_state) = [(Num (1 / 102200), Num 0)]"
proof -
  have i: "constrain (Math_floor (jdiv (ph_probeX ph_probe_state) (ph_dx ph_probe_state))) (Num 0)
             (Num (real (length (ph_cumulative ph_probe_state)) - 1)) = Num 0"
    by (simp add: ph_probe_state_fields ph_constructed_cum(1))
  show ?thesis
    unfolding ph_addReading_def Let_def i ph_probe_state_first(1)
    by (simp add: ph_probe_state_fields)
qed

lemma ph_probe_state_spec:
  "\<exists>v>0. ph_spec_voltage 0 ph_probe_state = Num v"
proof -
  obtain d where d: "0 < d" "jget (ph_cumulative ph_probe_state) (Num 1) = Num d"
    using ph_probe_state_first(2) by blast
  have t: "constrain (jdiv (ph_probeX ph_probe_state) (ph_L ph_probe_state)) (Num 0) (Num 1)
      = Num (1 / 1022)"
    by (simp add: ph_probe_state_fields)
  have idx: "jmul (Num (1 / 1022)) (Num (of_int (ph_samples ph_probe_state - 1))) = Num (1 / 2)"
    by (simp add: ph_probe_state_fields)
  have i0: "Math_floor (Num (1 / 2)) = Num 0" by simp
  have i1: "Math_min (Num (of_int (ph_samples ph_probe_state - 1))) (jadd (Num 0) (Num 1)) = Num 1"
    by (simp add: ph_probe_state_fields)
  have R: "ph_resistanceUpTo ph_probe_state (ph_probeX ph_probe_state) = Num (d / 2)"
    unfolding ph_resistanceUpTo_def Let_def t idx i0 i1 ph_probe_state_first(1) d(2)
    by simp
  have q: "0 \<le> 4 * (1.380649 / 10 ^ 23) * 300 * (d / 2) * (9 * 10 ^ 9)"
    using d(1) by simp
  have j: "Math_sqrt (jmul (jmul (jmul (jmul (Num 4) (ph_k_b ph_probe_state)) (ph_tempK ph_probe_state))
              (Num (d / 2))) (ph_noiseBW ph_probe_state))
      = Num (sqrt (4 * (1.380649 / 10 ^ 23) * 300 * (d / 2) * (9 * 10 ^ 9)))"
    unfolding ph_probe_state_fields jmul_Num using q by (rule Math_sqrt_Num)
  define s where "s = sqrt (4 * (1.380649 / 10 ^ 23) * 300 * (d / 2) * (9 * 10 ^ 9))"
  have t: "Math_sqrt (jadd (jmul (Num s) (Num s)) (jmul (Num 0.003) (Num 0.003)))
      = Num (sqrt (s * s + 0.003 * 0.003))"
  proof -
    have "0 \<le> s * s + 0.003 * 0.003" by (intro add_nonneg_nonneg zero_le_square)
    then show ?thesis by (simp only: jmul_Num jadd.simps Math_sqrt_Num)
  qed
  have "ph_spec_voltage 0 ph_probe_state = Num (d / 8)"
    unfolding ph_spec_voltage_def Let_def R j s_def [symmetric] t
    by (simp add: ph_probe_state_fields)
  moreover have "0 < d / 8" using d(1) by simp
  ultimately show ?thesis by blast
qed

text \<open>
  With the probe in the middle of the first interval and a zero draw, the handler logs
  0 V: it looks up the sample below the probe, whose cumulative resistance is 0. The
  interpolated resistance there is positive, and so is the voltage of claim C4.
\<close>

theorem ph_reading_not_interpolated:
  "PhysExperiment_new 0 = Inr (ph_constructed 0)
   \<and> ph_readings (ph_addReading 0 ph_probe_state) = [(Num (1 / 102200), Num 0)]
   \<and> ph_spec_voltage 0 ph_probe_state \<noteq> Num 0
   \<and> snd (last (ph_readings (ph_addReading 0 ph_probe_state))) \<noteq> ph_spec_voltage 0 ph_probe_state"
proof -
  obtain v where v: "0 < v" "ph_spec_voltage 0 ph_probe_state = Num v"
    using ph_probe_state_spec by blast
  show ?thesis
    using v by (simp add: PhysExperiment_new_eq ph_probe_state_code)
qed

section \<open>Generated profiles\<close>

lemma advance_0 [simp]: "advance g 0 = g"
  by (simp add: advance_def)

lemma advance_advance: "advance (advance g a) b = advance g (a + b)"
  by (simp add: advance_def algebra_simps)

lemma Mulberry32_next_eq: "Mulberry32_next g = (draw_at g 0, advance g 1)"
  by (simp add: draw_at_def Mulberry32_next_def advance_def Let_def)

lemma draw_at_advance: "draw_at (advance g a) k = draw_at g (a + k)"
  by (simp add: draw_at_def advance_advance)

lemma next_first: "(draw_at g 0, advance g 1) = Mulberry32_next g"
  by (simp add: Mulberry32_next_eq)

lemma draw_at_1: "draw_at (advance g 1) 0 = draw_at g 1"
  using draw_at_advance [of g 1 0] by simp

lemma advance_1_1: "advance (advance g 1) 1 = advance g 2"
  by (simp add: advance_def)

lemma next_second: "(draw_at g 1, advance g 2) = Mulberry32_next (advance g 1)"
  by (simp only: Mulberry32_next_eq draw_at_1 advance_1_1)

lemma draw_at_range: "0 \<le> draw_at g k \<and> draw_at g k < 1"
proof -
  have "\<exists>w::32 word. draw_at g k = real (unat w) / 4294967296"
    unfolding draw_at_def Mulberry32_next_def Let_def fst_conv by blast
  then obtain w :: "32 word" where w: "draw_at g k = real (unat w) / 4294967296"
    by blast
  have "unat w < 4294967296"
    using unsigned_less [of w, where ?'a = nat] by simp
  then have "\<exists>u::nat. u < 4294967296 \<and> draw_at g k = real u / 4294967296"
    using w by blast
  then obtain u :: nat where u: "u < 4294967296" "draw_at g k = real u / 4294967296"
    by blast
  show ?thesis using u(1) by (simp add: u(2))
qed

lemma lobe_loop_step:
  "k < lobes \<Longrightarrow>
   lobe_loop k lobes xNorm val g =
   lobe_loop (k + 1) lobes xNorm
     (jadd val (jmul (Num (6 / 10))
        (Math_sin (jadd (jmul (jmul (Num (7 / 10 + draw_at g 1 * (13 / 10))) (Num pi)) xNorm)
           (Num (draw_at g 0 * pi * 2))))))
     (advance g 2)"
  by (subst lobe_loop.simps)
     (simp only: Mulberry32_next_eq draw_at_1 advance_1_1 Let_def prod.case if_True)

lemma lobe_loop_stop: "\<not> k < lobes \<Longrightarrow> lobe_loop k lobes xNorm val g = (val, g)"
  by (subst lobe_loop.simps) simp

lemma lobe_loop_rng:
  "snd (lobe_loop k lobes xNorm val g) = advance g (2 * nat (lobes - k))"
proof (induction k lobes xNorm val g rule: lobe_loop.induct)
  case (1 k lobes xNorm val g)
  show ?case
  proof (cases "k < lobes")
    case False
    then show ?thesis by (simp add: lobe_loop_stop)
  next
    case True
    let ?v = "jadd val (jmul (Num (6 / 10))
        (Math_sin (jadd (jmul (jmul (Num (7 / 10 + draw_at g 1 * (13 / 10))) (Num pi)) xNorm)
           (Num (draw_at g 0 * pi * 2)))))"
    have ih: "snd (lobe_loop (k + 1) lobes xNorm ?v (advance g 2))
        = advance (advance g 2) (2 * nat (lobes - (k + 1)))"
      by (rule "1.IH" [OF True refl next_first refl refl next_second refl refl])
    have "2 + 2 * nat (lobes - (k + 1)) = 2 * nat (lobes - k)" using True by simp
    then show ?thesis
      unfolding lobe_loop_step [OF True] ih advance_advance by simp
  qed
qed

lemma lobe_sum_Suc:
  "lobe_sum g (Suc n) t
     = 0.6 * sin ((0.7 + draw_at g 1 * 1.3) * pi * t + draw_at g 0 * pi * 2)
       + lobe_sum (advance g 2) n t"
proof -
  let ?f = "\<lambda>j. 0.6 * sin ((0.7 + draw_at g (2 * j + 1) * 1.3) * pi * t + draw_at g (2 * j) * pi * 2)"
  have "lobe_sum g (Suc n) t = ?f 0 + (\<Sum>j<n. ?f (Suc j))"
    unfolding lobe_sum_def by (rule sum.lessThan_Suc_shift)
  moreover have "(\<Sum>j<n. ?f (Suc j)) = lobe_sum (advance g 2) n t"
    by (simp add: lobe_sum_def draw_at_advance)
  ultimately show ?thesis by simp
qed

lemma lobe_loop_finite:
  "fst (lobe_loop k lobes (Num t) (Num v) g) = Num (v + lobe_sum g (nat (lobes - k)) t)"
proof (induction k lobes "Num t" "Num v" g arbitrary: v rule: lobe_loop.induct)
  case (1 k lobes g)
  show ?case
  proof (cases "k < lobes")
    case False
    then show ?thesis by (simp add: lobe_loop_stop lobe_sum_def)
  next
    case True
    let ?w = "v + 0.6 * sin ((0.7 + draw_at g 1 * 1.3) * pi * t + draw_at g 0 * pi * 2)"
    have v: "jadd (Num v) (jmul (Num (6 / 10))
        (Math_sin (jadd (jmul (jmul (Num (7 / 10 + draw_at g 1 * (13 / 10))) (Num pi)) (Num t))
           (Num (draw_at g 0 * pi * 2))))) = Num ?w"
      by simp
    have ih: "fst (lobe_loop (k + 1) lobes (Num t) (Num ?w) (advance g 2))
        = Num (?w + lobe_sum (advance g 2) (nat (lobes - (k + 1))) t)"
      by (rule "1.hyps" [OF True refl next_first refl refl next_second refl v [symmetric]])
    obtain n where n: "nat (lobes - k) = Suc n" "nat (lobes - (k + 1)) = n"
      using True by (cases "nat (lobes - k)") (simp_all add: nat_diff_distrib)
    show ?thesis
      unfolding lobe_loop_step [OF True] v ih n lobe_sum_Suc by simp
  qed
qed

lemma lobe_loop_NaN:
  "k < lobes \<Longrightarrow> fst (lobe_loop k lobes NaN val g) = NaN"
proof (induction k lobes NaN val g rule: lobe_loop.induct)
  case (1 k lobes val g)
  have v: "jadd val (jmul (Num (6 / 10))
        (Math_sin (jadd (jmul (jmul (Num (7 / 10 + draw_at g 1 * (13 / 10))) (Num pi)) NaN)
           (Num (draw_at g 0 * pi * 2))))) = NaN"
    by (cases val) (simp_all add: jmul_def)
  have st: "lobe_loop k lobes NaN val g = lobe_loop (k + 1) lobes NaN NaN (advance g 2)"
    unfolding lobe_loop_step [OF "1.prems"] v ..
  show ?case
  proof (cases "k + 1 < lobes")
    case True
    show ?thesis
      unfolding st
      by (rule "1.hyps" [OF "1.prems" refl next_first refl refl next_second refl v [symmetric] True])
  next
    case False
    then show ?thesis unfolding st by (simp add: lobe_loop_stop)
  qed
qed

lemma sample_step_eq:
  "sample_step lobes i p =
     p\<lparr>rng := advance (rng p) (2 * nat lobes + 1),
       area := aset (area p) i
         (sample_area lobes (samples p) (minArea p) (maxArea p) (rng p) i)\<rparr>"
proof -
  let ?x = "jdiv (Num (real i)) (Num (of_int (samples p - 1)))"
  obtain v g1 where l: "lobe_loop 0 lobes ?x (Num 1.4) (rng p) = (v, g1)"
    by (cases "lobe_loop 0 lobes ?x (Num 1.4) (rng p)")
  have g1: "g1 = advance (rng p) (2 * nat lobes)"
    using lobe_loop_rng [of 0 lobes ?x "Num 1.4" "rng p"] l by simp
  have v: "v = fst (lobe_loop 0 lobes ?x (Num 1.4) (rng p))"
    using l by simp
  have n: "Mulberry32_next g1 = (draw_at (rng p) (2 * nat lobes), advance (rng p) (2 * nat lobes + 1))"
    by (simp add: Mulberry32_next_eq g1 draw_at_advance advance_advance)
  show ?thesis
    unfolding sample_step_def Let_def l prod.case n sample_area_def by simp
qed

lemma sample_loop_step:
  "int i < samples p \<Longrightarrow> sample_loop lobes i p = sample_loop lobes (Suc i) (sample_step lobes i p)"
  by (subst sample_loop.simps) simp

lemma sample_loop_stop: "\<not> int i < samples p \<Longrightarrow> sample_loop lobes i p = p"
  by (subst sample_loop.simps) simp

lemma sample_loop_frame:
  "sample_loop lobes i p =
     p\<lparr>rng := rng (sample_loop lobes i p), area := area (sample_loop lobes i p)\<rparr>"
proof (induction lobes i p rule: sample_loop.induct)
  case (1 lobes i p)
  show ?case
  proof (cases "int i < samples p")
    case False
    then show ?thesis by (simp add: sample_loop_stop)
  next
    case True
    let ?p' = "sample_step lobes i p"
    have "sample_loop lobes (Suc i) ?p' =
        ?p'\<lparr>rng := rng (sample_loop lobes (Suc i) ?p'), area := area (sample_loop lobes (Suc i) ?p')\<rparr>"
      using "1.IH" [OF True] .
    also have "\<dots> = p\<lparr>rng := rng (sample_loop lobes (Suc i) ?p'), area := area (sample_loop lobes (Suc i) ?p')\<rparr>"
      by (subst sample_step_eq) simp
    finally show ?thesis
      unfolding sample_loop_step [OF True] .
  qed
qed

lemma sample_loop_result:
  assumes "i \<le> length (area p)"
  shows "rng (sample_loop lobes i p) = advance (rng p) (nat (samples p - int i) * (2 * nat lobes + 1))
    \<and> length (area (sample_loop lobes i p)) = max (length (area p)) (nat (samples p))
    \<and> (\<forall>j<i. area (sample_loop lobes i p) ! j = area p ! j)
    \<and> (\<forall>j. i \<le> j \<and> int j < samples p \<longrightarrow>
          area (sample_loop lobes i p) ! j
            = sample_area lobes (samples p) (minArea p) (maxArea p)
                (advance (rng p) ((j - i) * (2 * nat lobes + 1))) j)"
  using assms
proof (induction lobes i p rule: sample_loop.induct)
  case (1 lobes i p)
  show ?case
  proof (cases "int i < samples p")
    case False
    with "1.prems" show ?thesis by (auto simp: sample_loop_stop)
  next
    case True
    let ?m = "2 * nat lobes + 1"
    let ?v = "sample_area lobes (samples p) (minArea p) (maxArea p) (rng p) i"
    let ?p' = "sample_step lobes i p"
    let ?q = "sample_loop lobes (Suc i) ?p'"
    have p': "rng ?p' = advance (rng p) ?m" "area ?p' = aset (area p) i ?v"
      "samples ?p' = samples p" "minArea ?p' = minArea p" "maxArea ?p' = maxArea p"
      by (subst sample_step_eq, simp)+
    have len': "length (area ?p') = max (length (area p)) (Suc i)"
      by (simp add: p' length_aset)
    then have "Suc i \<le> length (area ?p')" by simp
    note ih = "1.IH" [OF True this, unfolded p']
    have n: "nat (samples p - int i) = Suc (nat (samples p - int (Suc i)))"
      using True by simp
    have e: "?m + nat (samples p - int (Suc i)) * ?m = nat (samples p - int i) * ?m"
      unfolding n by simp
    have "rng ?q = advance (advance (rng p) ?m) (nat (samples p - int (Suc i)) * ?m)"
      using ih by blast
    then have c1: "rng ?q = advance (rng p) (nat (samples p - int i) * ?m)"
      unfolding advance_advance e .
    have c2: "length (area ?q) = max (length (area p)) (nat (samples p))"
      using ih True by (simp add: length_aset)
    have c3: "\<forall>j<i. area ?q ! j = area p ! j"
      using ih "1.prems" by (simp add: nth_aset_other)
    have ci: "area ?q ! i = ?v"
      using ih by (simp add: nth_aset_same)
    have c4: "area ?q ! j = sample_area lobes (samples p) (minArea p) (maxArea p)
                (advance (rng p) ((j - i) * ?m)) j"
      if j: "i \<le> j \<and> int j < samples p" for j
    proof (cases "j = i")
      case True
      then show ?thesis using ci by simp
    next
      case False
      then have s: "Suc i \<le> j \<and> int j < samples p" using j by simp
      have "?m + (j - Suc i) * ?m = (j - i) * ?m"
      proof -
        have "j - i = Suc (j - Suc i)" using s by linarith
        then have "(j - i) * ?m = ?m + (j - Suc i) * ?m" by (simp only: mult_Suc)
        then show ?thesis by (rule sym)
      qed
      moreover have "area ?q ! j = sample_area lobes (samples p) (minArea p) (maxArea p)
                (advance (advance (rng p) ?m) ((j - Suc i) * ?m)) j"
        using ih s by blast
      ultimately show ?thesis unfolding advance_advance by simp
    qed
    show ?thesis
      unfolding sample_loop_step [OF True] using c1 c2 c3 c4 by blast
  qed
qed

lemma lobe_count_range: "2 \<le> lobe_count g \<and> lobe_count g \<le> 4"
proof -
  have r: "0 \<le> draw_at g 0" "draw_at g 0 < 1" using draw_at_range [of g 0] by simp_all
  have "0 \<le> \<lfloor>draw_at g 0 * 3\<rfloor>" using r(1) by simp
  moreover have "\<lfloor>draw_at g 0 * 3\<rfloor> < 3" using r(2) by (simp add: floor_less_iff)
  ultimately show ?thesis by (simp add: lobe_count_def)
qed

lemma generate_eq:
  "generate p = sample_loop (lobe_count (rng p)) 0 (p\<lparr>rng := advance (rng p) 1\<rparr>)"
  by (simp add: generate_def Mulberry32_next_eq lobe_count_def Let_def)

lemma generate_frame:
  "generate p = p\<lparr>rng := rng (generate p), area := area (generate p)\<rparr>"
proof -
  let ?p0 = "p\<lparr>rng := advance (rng p) 1\<rparr>"
  let ?q = "sample_loop (lobe_count (rng p)) 0 ?p0"
  have "?q = ?p0\<lparr>rng := rng ?q, area := area ?q\<rparr>" by (rule sample_loop_frame)
  then have "?q = p\<lparr>rng := rng ?q, area := area ?q\<rparr>" by simp
  then show ?thesis unfolding generate_eq .
qed

lemma generate_fields:
  "samples (generate p) = samples p"
  "minArea (generate p) = minArea p"
  "maxArea (generate p) = maxArea p"
  "length_m (generate p) = length_m p"
  "dx (generate p) = dx p"
  "cumulative (generate p) = cumulative p"
  "totalR (generate p) = totalR p"
  by (subst generate_frame, simp)+

lemma generate_result:
  "rng (generate p)
     = advance (rng p) (1 + nat (samples p) * (2 * nat (lobe_count (rng p)) + 1))"
  "length (area (generate p)) = max (length (area p)) (nat (samples p))"
  "int j < samples p \<Longrightarrow>
     area (generate p) ! j
       = sample_area (lobe_count (rng p)) (samples p) (minArea p) (maxArea p)
           (advance (rng p) (1 + j * (2 * nat (lobe_count (rng p)) + 1))) j"
proof -
  let ?p0 = "p\<lparr>rng := advance (rng p) 1\<rparr>"
  have "0 \<le> length (area ?p0)" by simp
  note R = sample_loop_result [OF this, of "lobe_count (rng p)"]
  show "rng (generate p)
     = advance (rng p) (1 + nat (samples p) * (2 * nat (lobe_count (rng p)) + 1))"
    unfolding generate_eq using R by (simp add: advance_advance)
  show "length (area (generate p)) = max (length (area p)) (nat (samples p))"
    unfolding generate_eq using R by simp
  show "area (generate p) ! j
       = sample_area (lobe_count (rng p)) (samples p) (minArea p) (maxArea p)
           (advance (rng p) (1 + j * (2 * nat (lobe_count (rng p)) + 1))) j"
    if "int j < samples p"
    unfolding generate_eq using R that by (simp add: advance_advance)
qed

lemma sample_area_finite:
  assumes "2 \<le> n"
  shows "sample_area lobes n (Num a) (Num b) g i =
     Num (min b (max a (1.4 + lobe_sum g (nat lobes) (real i / of_int (n - 1))
                          + 0.3 * (draw_at g (2 * nat lobes) - 0.5))))"
proof -
  have "real_of_int (n - 1) \<noteq> 0" using assms by simp
  then have x: "jdiv (Num (real i)) (Num (of_int (n - 1))) = Num (real i / of_int (n - 1))"
    by (rule jdiv_Num)
  have l: "fst (lobe_loop 0 lobes (Num (real i / of_int (n - 1))) (Num 1.4) g)
      = Num (1.4 + lobe_sum g (nat lobes) (real i / of_int (n - 1)))"
    using lobe_loop_finite [of 0 lobes "real i / of_int (n - 1)" "1.4" g] by simp
  show ?thesis
    unfolding sample_area_def x l by simp
qed

lemma sample_area_single:
  assumes "0 < lobes"
  shows "sample_area lobes 1 lo hi g 0 = NaN"
proof -
  have x: "jdiv (Num (real 0)) (Num (of_int (1 - 1))) = NaN"
    by (simp add: jdiv_def)
  have l: "fst (lobe_loop 0 lobes NaN (Num 1.4) g) = NaN"
    using assms by (rule lobe_loop_NaN)
  show ?thesis
    unfolding sample_area_def x l by (simp add: Math_min_def Math_max_def)
qed

lemma AreaProfile_new_eq:
  "AreaProfile_new entropy opts =
     (if (case opt_samples opts of None \<Rightarrow> 512 | Some v \<Rightarrow> v) < 0
         \<or> 2 ^ 32 \<le> (case opt_samples opts of None \<Rightarrow> 512 | Some v \<Rightarrow> v)
      then Inl RangeError
      else Inr (generate (initial_profile entropy opts)))"
  by (simp add: AreaProfile_new_def new_Array_fill_def initial_profile_def Let_def)

lemma initial_profile_fields:
  "samples (initial_profile entropy opts) = (case opt_samples opts of None \<Rightarrow> 512 | Some v \<Rightarrow> v)"
  "length (area (initial_profile entropy opts)) = nat (samples (initial_profile entropy opts))"
  "length (cumulative (initial_profile entropy opts)) = nat (samples (initial_profile entropy opts))"
  "dx (initial_profile entropy opts)
     = jdiv (length_m (initial_profile entropy opts))
         (Num (of_int (samples (initial_profile entropy opts) - 1)))"
  "minArea (initial_profile entropy opts) = (case opt_minArea opts of None \<Rightarrow> Num 0.6 | Some v \<Rightarrow> v)"
  "maxArea (initial_profile entropy opts) = (case opt_maxArea opts of None \<Rightarrow> Num 3.2 | Some v \<Rightarrow> v)"
  "rng (initial_profile entropy opts)
     = Mulberry32_new (case opt_seed opts of None \<Rightarrow> entropy | Some v \<Rightarrow> v)"
  by (simp_all add: initial_profile_def Let_def)

lemma generate_wf:
  assumes "0 \<le> samples p" "length (area p) = nat (samples p)"
    "length (cumulative p) = nat (samples p)"
    "dx p = jdiv (length_m p) (Num (of_int (samples p - 1)))"
  shows "wf_profile (generate p)"
  using assms by (simp add: wf_profile_def generate_fields generate_result(2))

lemma AreaProfile_new_wf:
  assumes "AreaProfile_new entropy opts = Inr p"
  shows "wf_profile p"
proof -
  let ?n = "case opt_samples opts of None \<Rightarrow> 512 | Some v \<Rightarrow> v"
  have n: "\<not> (?n < 0 \<or> 2 ^ 32 \<le> ?n)"
    using assms by (auto simp: AreaProfile_new_eq split: if_splits)
  then have p: "p = generate (initial_profile entropy opts)"
    using assms by (simp add: AreaProfile_new_eq)
  have "0 \<le> samples (initial_profile entropy opts)"
    using n by (simp add: initial_profile_fields(1))
  then show ?thesis
    unfolding p using initial_profile_fields(2,3,4) by (rule generate_wf)
qed

lemma generate_single:
  assumes "samples p = 1" "length (area p) = 1"
  shows "area (generate p) = [NaN]"
proof -
  have l: "0 < lobe_count (rng p)" using lobe_count_range [of "rng p"] by simp
  have "length (area (generate p)) = 1"
    using assms by (simp add: generate_result(2))
  moreover have "area (generate p) ! 0 = NaN"
    using generate_result(3) [of 0 p] assms(1) sample_area_single [OF l] by simp
  ultimately show ?thesis
    by (cases "area (generate p)") simp_all
qed

lemma generate_samples:
  assumes "2 \<le> samples p" "minArea p = Num a" "maxArea p = Num b" "int i < samples p"
  shows "area (generate p) ! i =
     Num (min b (max a
       (1.4 + lobe_sum (advance (rng p) (1 + i * (2 * nat (lobe_count (rng p)) + 1)))
                (nat (lobe_count (rng p))) (real i / of_int (samples p - 1))
            + 0.3 * (draw_at (rng p)
                       (1 + i * (2 * nat (lobe_count (rng p)) + 1) + 2 * nat (lobe_count (rng p)))
                     - 0.5))))"
  unfolding generate_result(3) [OF assms(4)] assms(2,3) sample_area_finite [OF assms(1)]
    draw_at_advance ..

lemma generate_bounded:
  assumes "2 \<le> samples p" "length (area p) = nat (samples p)"
    "minArea p = Num a" "maxArea p = Num b" "a \<le> b"
  shows "\<forall>v\<in>set (area (generate p)). \<exists>r. v = Num r \<and> a \<le> r \<and> r \<le> b"
proof
  fix v assume "v \<in> set (area (generate p))"
  then obtain i where i: "i < length (area (generate p))" "v = area (generate p) ! i"
    by (auto simp: in_set_conv_nth)
  have "int i < samples p"
    using i(1) assms(1,2) by (simp add: generate_result(2))
  from generate_samples [OF assms(1,3,4) this] i(2) assms(5)
  show "\<exists>r. v = Num r \<and> a \<le> r \<and> r \<le> b"
    by (auto simp: min_def max_def)
qed

lemma AreaProfile_new_positive:
  assumes new: "AreaProfile_new entropy opts = Inr p" and n: "2 \<le> samples p"
    and lo: "minArea p = Num a" "0 < a" and hi: "maxArea p = Num b" "a \<le> b"
  shows "wf_profile p \<and> (\<exists>as. area p = map Num as \<and> (\<forall>v\<in>set as. 0 < v))"
proof -
  let ?i = "initial_profile entropy opts"
  have p: "p = generate ?i"
    using new by (auto simp: AreaProfile_new_eq split: if_splits)
  have i: "2 \<le> samples ?i" "minArea ?i = Num a" "maxArea ?i = Num b"
    using n lo(1) hi(1) by (simp_all add: p generate_fields)
  have b: "\<forall>v\<in>set (area p). \<exists>r. v = Num r \<and> a \<le> r \<and> r \<le> b"
    unfolding p using i(1) initial_profile_fields(2) i(2,3) hi(2) by (rule generate_bounded)
  have f: "v = Num (fin v)" if "v \<in> set (area p)" for v
    using b that by fastforce
  have "area p = map Num (map fin (area p))"
    by (rule nth_equalityI) (use f in auto)
  moreover have "\<forall>v\<in>set (map fin (area p)). 0 < v"
    using b lo(2) by fastforce
  ultimately show ?thesis
    using AreaProfile_new_wf [OF new] by blast
qed

section \<open>The constructor: degenerate options and determinism\<close>

text \<open>
  Claim C9, as the code has it. The constructor has no guard against a division by
  zero: for an integer sample count \<open>0 \<le> N < 2^32\<close>, in particular \<open>N = 0\<close> and \<open>N = 1\<close>,
  and any length, in particular \<open>L \<le> 0\<close>, it does not throw and returns a profile with
  \<open>N\<close> samples in both arrays and \<open>dx = L / (N - 1)\<close> computed as JavaScript divides
  (infinite or \<open>NaN\<close> for \<open>N = 1\<close>). For \<open>N = 1\<close> the single area is \<open>NaN\<close>; for \<open>N \<ge> 2\<close> and
  finite bounds \<open>minArea \<le> maxArea\<close> every area lies within the bounds.
\<close>

theorem AreaProfile_new_degenerate:
  assumes "opt_samples opts = Some n" and "0 \<le> n" and "n < 2 ^ 32"
  shows "\<exists>p. AreaProfile_new entropy opts = Inr p \<and> wf_profile p \<and> samples p = n
           \<and> (n = 1 \<longrightarrow> area p = [NaN])
           \<and> (\<forall>a b. 2 \<le> n \<and> minArea p = Num a \<and> maxArea p = Num b \<and> a \<le> b \<longrightarrow>
                 (\<forall>v\<in>set (area p). \<exists>r. v = Num r \<and> a \<le> r \<and> r \<le> b))"
proof -
  let ?i = "initial_profile entropy opts"
  let ?p = "generate ?i"
  have s: "samples ?i = n" using assms(1) by (simp add: initial_profile_fields(1))
  have new: "AreaProfile_new entropy opts = Inr ?p"
    using assms by (simp add: AreaProfile_new_eq)
  have wf: "wf_profile ?p" using new by (rule AreaProfile_new_wf)
  have sp: "samples ?p = n" using s by (simp add: generate_fields)
  have one: "area ?p = [NaN]" if "n = 1"
    using that s initial_profile_fields(2) [of entropy opts] by (intro generate_single) simp_all
  have bnd: "\<forall>v\<in>set (area ?p). \<exists>r. v = Num r \<and> a \<le> r \<and> r \<le> b"
    if "2 \<le> n \<and> minArea ?p = Num a \<and> maxArea ?p = Num b \<and> a \<le> b" for a b
    using that s initial_profile_fields(2) [of entropy opts]
    by (intro generate_bounded) (simp_all add: generate_fields)
  show ?thesis using new wf sp one bnd by blast
qed

theorem AreaProfile_new_degenerate_witness:
  "opt_samples degenerate_opts = Some 1 \<and> (0::int) \<le> 1 \<and> (1::int) < 2 ^ 32
   \<and> opt_length degenerate_opts = Some (Num 0)
   \<and> (\<exists>p. AreaProfile_new 0 degenerate_opts = Inr p \<and> wf_profile p \<and> samples p = 1
          \<and> area p = [NaN] \<and> length_m p = Num 0 \<and> dx p = NaN)"
proof -
  have h1: "opt_samples degenerate_opts = Some 1" by (simp add: degenerate_opts_def)
  have h2: "(0::int) \<le> 1" by simp
  have h3: "(1::int) < 2 ^ 32" by simp
  from AreaProfile_new_degenerate [OF h1 h2 h3, of 0]
  obtain p where p: "AreaProfile_new 0 degenerate_opts = Inr p" "wf_profile p" "samples p = 1"
    "area p = [NaN]" by blast
  have g: "p = generate (initial_profile 0 degenerate_opts)"
    using p(1) by (simp add: AreaProfile_new_eq degenerate_opts_def)
  have l: "length_m p = Num 0"
    unfolding g by (simp add: generate_fields initial_profile_def degenerate_opts_def Let_def)
  have d: "dx p = NaN"
    using p(2,3) l by (simp add: wf_profile_def jdiv_def)
  show ?thesis using h1 p l d by (simp add: degenerate_opts_def)
qed

text \<open>
  A sample count of \<open>-1\<close> makes \<open>new Array(-1)\<close> throw \<open>RangeError\<close>, which the constructor
  propagates; and a single sample is not clamped into \<open>[minArea, maxArea]\<close> but \<open>NaN\<close>.
  Both contradict claim C9.
\<close>

theorem AreaProfile_new_throws:
  "AreaProfile_new 0 (opts_samples_seed (- 1) 42) = Inl RangeError
   \<and> map_sum id area (AreaProfile_new 0 (opts_samples_seed 1 42)) = Inr [NaN]"
proof -
  have 1: "AreaProfile_new 0 (opts_samples_seed (- 1) 42) = Inl RangeError"
    by (simp add: AreaProfile_new_eq opts_samples_seed_def)
  have "AreaProfile_new 0 (opts_samples_seed 1 42)
      = Inr (generate (initial_profile 0 (opts_samples_seed 1 42)))"
    by (simp add: AreaProfile_new_eq opts_samples_seed_def)
  moreover have "area (generate (initial_profile 0 (opts_samples_seed 1 42))) = [NaN]"
    by (rule generate_single) (simp_all add: initial_profile_def opts_samples_seed_def Let_def)
  ultimately show ?thesis using 1 by simp
qed

text \<open>
  Claim C5. Two constructions whose options agree on length, sample count and area
  bounds and give the same seed return the same result, whatever the ambient random
  numbers of the two runs are: the same area array (and the same profile altogether),
  or the same error. Every number the generator returns lies in \<open>[0, 1)\<close>, and it is a
  function of the seed and of the number of draws made before only.
\<close>

theorem AreaProfile_new_deterministic:
  assumes "opt_seed o1 = Some s" and "opt_seed o2 = Some s"
    and "opt_length o1 = opt_length o2" and "opt_samples o1 = opt_samples o2"
    and "opt_minArea o1 = opt_minArea o2" and "opt_maxArea o1 = opt_maxArea o2"
  shows "AreaProfile_new e1 o1 = AreaProfile_new e2 o2
       \<and> map_sum id area (AreaProfile_new e1 o1) = map_sum id area (AreaProfile_new e2 o2)
       \<and> (\<forall>k. 0 \<le> draw_at (Mulberry32_new s) k \<and> draw_at (Mulberry32_new s) k < 1)"
proof -
  have "AreaProfile_new e1 o1 = AreaProfile_new e2 o2"
    using assms by (simp add: AreaProfile_new_def)
  then show ?thesis using draw_at_range by simp
qed

theorem AreaProfile_new_deterministic_witness:
  "opt_seed (opts_samples_seed 2 42) = Some 42
   \<and> AreaProfile_new 1 (opts_samples_seed 2 42) = AreaProfile_new 2 (opts_samples_seed 2 42)
   \<and> map_sum id area (AreaProfile_new 1 (opts_samples_seed 2 42))
       = map_sum id area (AreaProfile_new 2 (opts_samples_seed 2 42))
   \<and> draw_at (Mulberry32_new 42) 0 = 2581720956 / 4294967296"
proof -
  have h: "opt_seed (opts_samples_seed 2 42) = Some 42" by (simp add: opts_samples_seed_def)
  have d: "draw_at (Mulberry32_new 42) 0 = 2581720956 / 4294967296"
    by (simp add: draw_at_def advance_def Mulberry32_new_def Mulberry32_next_def Let_def)
  show ?thesis
    using AreaProfile_new_deterministic [OF h h refl refl refl refl, of 1 2] h d by simp
qed

section \<open>The draws behind each sample\<close>

lemma draw_42:
  "draw_at (Mulberry32_new 42) 0 = 2581720956 / 4294967296"
  "draw_at (Mulberry32_new 42) 1 = 1925393290 / 4294967296"
  "draw_at (Mulberry32_new 42) 8 = 3717185310 / 4294967296"
  by (simp_all add: draw_at_def advance_def Mulberry32_new_def Mulberry32_next_def Let_def)

lemma lobe_count_42: "lobe_count (Mulberry32_new 42) = 3"
  by (simp add: lobe_count_def draw_42(1))

lemma lobe_sum_3:
  "lobe_sum g 3 t =
     0.6 * sin ((0.7 + draw_at g 1 * 1.3) * pi * t + draw_at g 0 * pi * 2)
     + 0.6 * sin ((0.7 + draw_at g 3 * 1.3) * pi * t + draw_at g 2 * pi * 2)
     + 0.6 * sin ((0.7 + draw_at g 5 * 1.3) * pi * t + draw_at g 4 * pi * 2)"
  by (simp add: lobe_sum_def eval_nat_numeral)

lemma seed42_profile_eq:
  "AreaProfile_new 0 (opts_samples_seed 2 42) = Inr seed42_profile"
  by (simp add: seed42_profile_def AreaProfile_new_eq opts_samples_seed_def)

lemma seed42_generate:
  "seed42_profile = generate (initial_profile 0 (opts_samples_seed 2 42))"
  by (simp add: seed42_profile_def AreaProfile_new_eq opts_samples_seed_def)

lemma seed42_initial:
  "samples (initial_profile 0 (opts_samples_seed 2 42)) = 2"
  "minArea (initial_profile 0 (opts_samples_seed 2 42)) = Num (3 / 5)"
  "maxArea (initial_profile 0 (opts_samples_seed 2 42)) = Num (16 / 5)"
  "rng (initial_profile 0 (opts_samples_seed 2 42)) = Mulberry32_new 42"
  by (simp_all add: initial_profile_def opts_samples_seed_def Let_def)

lemma seed42_rng: "rng seed42_profile = advance (Mulberry32_new 42) 15"
  unfolding seed42_generate generate_result(1) seed42_initial lobe_count_42 by simp

lemma seed42_area:
  "int i < 2 \<Longrightarrow>
   area seed42_profile ! i =
     Num (min (16 / 5) (max (3 / 5)
       (1.4 + lobe_sum (advance (Mulberry32_new 42) (1 + i * 7)) 3 (real i)
            + 0.3 * (draw_at (Mulberry32_new 42) (1 + i * 7 + 6) - 0.5))))"
  using generate_samples [of "initial_profile 0 (opts_samples_seed 2 42)" "3 / 5" "16 / 5" i]
  unfolding seed42_generate seed42_initial lobe_count_42 by simp

text \<open>
  Claim C3 on the options \<open>{samples: 2, seed: 42}\<close>. The first draw gives three lobes.
  Sample 0 takes the phases of its three lobes from draws 1, 3 and 5 and the frequencies
  from draws 2, 4 and 6; sample 1 takes new ones, from draws 8, 10, 12 and 9, 11, 13: the
  phase of the first lobe changes from \<open>2 \<pi> * 1925393290 / 2^32\<close> to
  \<open>2 \<pi> * 3717185310 / 2^32\<close>. The constructor makes 15 draws, not the 9 that one phase
  and one frequency per lobe would take.
\<close>

theorem generate_redraws_lobes:
  "AreaProfile_new 0 (opts_samples_seed 2 42) = Inr seed42_profile
   \<and> lobe_count (Mulberry32_new 42) = 3
   \<and> area seed42_profile ! 0 =
       Num (min (16 / 5) (max (3 / 5)
         (1.4
          + (0.6 * sin ((0.7 + draw_at (Mulberry32_new 42) 2 * 1.3) * pi * 0
                        + draw_at (Mulberry32_new 42) 1 * pi * 2)
             + 0.6 * sin ((0.7 + draw_at (Mulberry32_new 42) 4 * 1.3) * pi * 0
                          + draw_at (Mulberry32_new 42) 3 * pi * 2)
             + 0.6 * sin ((0.7 + draw_at (Mulberry32_new 42) 6 * 1.3) * pi * 0
                          + draw_at (Mulberry32_new 42) 5 * pi * 2))
          + 0.3 * (draw_at (Mulberry32_new 42) 7 - 0.5))))
   \<and> area seed42_profile ! 1 =
       Num (min (16 / 5) (max (3 / 5)
         (1.4
          + (0.6 * sin ((0.7 + draw_at (Mulberry32_new 42) 9 * 1.3) * pi * 1
                        + draw_at (Mulberry32_new 42) 8 * pi * 2)
             + 0.6 * sin ((0.7 + draw_at (Mulberry32_new 42) 11 * 1.3) * pi * 1
                          + draw_at (Mulberry32_new 42) 10 * pi * 2)
             + 0.6 * sin ((0.7 + draw_at (Mulberry32_new 42) 13 * 1.3) * pi * 1
                          + draw_at (Mulberry32_new 42) 12 * pi * 2))
          + 0.3 * (draw_at (Mulberry32_new 42) 14 - 0.5))))
   \<and> draw_at (Mulberry32_new 42) 1 = 1925393290 / 4294967296
   \<and> draw_at (Mulberry32_new 42) 8 = 3717185310 / 4294967296
   \<and> state (rng seed42_profile) = 42 + 15 * 0x6D2B79F5"
proof -
  let ?g = "Mulberry32_new 42"
  have d1: "draw_at (advance ?g 1) k = draw_at ?g (Suc k)" for k
    by (simp add: draw_at_advance)
  have L0: "lobe_sum (advance ?g 1) 3 0 =
      0.6 * sin ((0.7 + draw_at ?g 2 * 1.3) * pi * 0 + draw_at ?g 1 * pi * 2)
      + 0.6 * sin ((0.7 + draw_at ?g 4 * 1.3) * pi * 0 + draw_at ?g 3 * pi * 2)
      + 0.6 * sin ((0.7 + draw_at ?g 6 * 1.3) * pi * 0 + draw_at ?g 5 * pi * 2)"
    unfolding lobe_sum_3 d1 by simp
  have L1: "lobe_sum (advance ?g 8) 3 1 =
      0.6 * sin ((0.7 + draw_at ?g 9 * 1.3) * pi * 1 + draw_at ?g 8 * pi * 2)
      + 0.6 * sin ((0.7 + draw_at ?g 11 * 1.3) * pi * 1 + draw_at ?g 10 * pi * 2)
      + 0.6 * sin ((0.7 + draw_at ?g 13 * 1.3) * pi * 1 + draw_at ?g 12 * pi * 2)"
    unfolding lobe_sum_3 draw_at_advance by simp
  have "area seed42_profile ! 0 =
       Num (min (16 / 5) (max (3 / 5)
         (1.4 + lobe_sum (advance ?g 1) 3 0 + 0.3 * (draw_at ?g 7 - 0.5))))"
    using seed42_area [of 0] by simp
  then have a0: "area seed42_profile ! 0 =
       Num (min (16 / 5) (max (3 / 5)
         (1.4
          + (0.6 * sin ((0.7 + draw_at (Mulberry32_new 42) 2 * 1.3) * pi * 0
                        + draw_at (Mulberry32_new 42) 1 * pi * 2)
             + 0.6 * sin ((0.7 + draw_at (Mulberry32_new 42) 4 * 1.3) * pi * 0
                          + draw_at (Mulberry32_new 42) 3 * pi * 2)
             + 0.6 * sin ((0.7 + draw_at (Mulberry32_new 42) 6 * 1.3) * pi * 0
                          + draw_at (Mulberry32_new 42) 5 * pi * 2))
          + 0.3 * (draw_at (Mulberry32_new 42) 7 - 0.5))))"
    unfolding L0 .
  have "area seed42_profile ! 1 =
       Num (min (16 / 5) (max (3 / 5)
         (1.4 + lobe_sum (advance ?g 8) 3 1 + 0.3 * (draw_at ?g 14 - 0.5))))"
    using seed42_area [of 1] by simp
  then have a1: "area seed42_profile ! 1 =
       Num (min (16 / 5) (max (3 / 5)
         (1.4
          + (0.6 * sin ((0.7 + draw_at (Mulberry32_new 42) 9 * 1.3) * pi * 1
                        + draw_at (Mulberry32_new 42) 8 * pi * 2)
             + 0.6 * sin ((0.7 + draw_at (Mulberry32_new 42) 11 * 1.3) * pi * 1
                          + draw_at (Mulberry32_new 42) 10 * pi * 2)
             + 0.6 * sin ((0.7 + draw_at (Mulberry32_new 42) 13 * 1.3) * pi * 1
                          + draw_at (Mulberry32_new 42) 12 * pi * 2))
          + 0.3 * (draw_at (Mulberry32_new 42) 14 - 0.5))))"
    unfolding L1 .
  have s: "state (rng seed42_profile) = 42 + 15 * 0x6D2B79F5"
    by (simp add: seed42_rng advance_def Mulberry32_new_def)
  show ?thesis
    using seed42_profile_eq lobe_count_42 a0 a1 draw_42(2,3) s by blast
qed

end
